theory Spec2Isabelle
  imports Complex_Main "HOL-Library.Multiset"
begin

section \<open>Python values used by the scheduler\<close>

text \<open>
  The development embeds the scheduling engine of
  \<^verbatim>\<open>flexible_scheduling/hybrid_ga_vns_scheduler.py\<close> and the machine state of
  \<^verbatim>\<open>flexible_scheduling/fjsp_scheduler.py\<close>.  Python exceptions are values of
  \<open>error\<close>; a function that can raise returns \<open>error + 'a\<close> with \<open>Inl\<close> the exception.
\<close>

datatype error = IndexError | KeyError | ValueError | ZeroDivisionError | TypeError
  | OverflowError | OSError | JSONDecodeError

definition bind_err :: "error + 'a \<Rightarrow> ('a \<Rightarrow> error + 'b) \<Rightarrow> error + 'b" where
  "bind_err m f = (case m of Inl e \<Rightarrow> Inl e | Inr x \<Rightarrow> f x)"

text \<open>Reading \<^verbatim>\<open>xs[i]\<close>.  Positions \<open>0..len-1\<close> are read directly, positions
  \<open>-len..-1\<close> are read from the back, and every other position raises IndexError.\<close>

definition py_get :: "'a list \<Rightarrow> int \<Rightarrow> error + 'a" where
  "py_get xs i =
     (if 0 \<le> i \<and> i < int (length xs) then Inr (xs ! nat i)
      else if i < 0 \<and> - int (length xs) \<le> i then Inr (xs ! nat (int (length xs) + i))
      else Inl IndexError)"

text \<open>\<^verbatim>\<open>s.split(sep)\<close> for a non-empty separator: the pieces between the
  non-overlapping occurrences of \<open>sep\<close>, scanned from the left.\<close>

fun split_from :: "string \<Rightarrow> string \<Rightarrow> string \<Rightarrow> string list" where
  "split_from sep acc [] = [rev acc]"
| "split_from sep acc (c # cs) =
     (if take (length sep) (c # cs) = sep
      then rev acc # split_from sep [] (drop (length sep - 1) cs)
      else split_from sep (c # acc) cs)"

definition py_split :: "string \<Rightarrow> string \<Rightarrow> string list" where
  "py_split s sep = split_from sep [] s"

text \<open>The fitness fields are Python floats that hold either \<^verbatim>\<open>float('inf')\<close> (the
  default of a fresh Individual) or an integer makespan.\<close>

datatype fitness_val = Fin int | PosInf

instantiation fitness_val :: linorder
begin

fun less_eq_fitness_val :: "fitness_val \<Rightarrow> fitness_val \<Rightarrow> bool" where
  "less_eq_fitness_val (Fin a) (Fin b) = (a \<le> b)"
| "less_eq_fitness_val _ PosInf = True"
| "less_eq_fitness_val PosInf (Fin b) = False"

definition less_fitness_val :: "fitness_val \<Rightarrow> fitness_val \<Rightarrow> bool" where
  "less_fitness_val x y = (x \<le> y \<and> \<not> y \<le> x)"

instance
proof
  fix x y z :: fitness_val
  show "(x < y) = (x \<le> y \<and> \<not> y \<le> x)" by (simp add: less_fitness_val_def)
  show "x \<le> x" by (cases x) simp_all
  show "x \<le> y \<Longrightarrow> y \<le> z \<Longrightarrow> x \<le> z" by (cases x; cases y; cases z) simp_all
  show "x \<le> y \<Longrightarrow> y \<le> x \<Longrightarrow> x = y" by (cases x; cases y) simp_all
  show "x \<le> y \<or> y \<le> x" by (cases x; cases y) auto
qed

end

section \<open>Data model\<close>

text \<open>\<^verbatim>\<open>Task\<close>, \<^verbatim>\<open>ScheduledTask\<close> and \<^verbatim>\<open>MachineState\<close> of fjsp_scheduler.py.\<close>

record Task =
  order_id :: string
  job_name :: string
  operation_idx :: int
  task_id :: string
  quantity :: int

record ScheduledTask =
  task :: Task
  machine_id :: string
  start_time :: int
  end_time :: int
  processing_time :: int

record MachineState =
  ms_machine_id :: string
  available_time :: int
  scheduled_tasks :: "ScheduledTask list"

text \<open>\<^verbatim>\<open>MachineState.__init__\<close>\<close>

definition new_MachineState :: "string \<Rightarrow> MachineState" where
  "new_MachineState m = \<lparr>ms_machine_id = m, available_time = 0, scheduled_tasks = []\<rparr>"

text \<open>\<^verbatim>\<open>MachineState.schedule_task\<close>: the optional start time is \<open>None\<close> when the
  caller leaves it out.  Returns the updated machine and the new ScheduledTask.\<close>

definition schedule_task ::
  "MachineState \<Rightarrow> Task \<Rightarrow> int \<Rightarrow> int option \<Rightarrow> MachineState \<times> ScheduledTask" where
  "schedule_task self t ptime start =
     (let start_time = (case start of None \<Rightarrow> available_time self
                        | Some st \<Rightarrow> max st (available_time self));
          end_time = start_time + ptime;
          scheduled_task = \<lparr>task = t, machine_id = ms_machine_id self,
                            start_time = start_time, end_time = end_time,
                            processing_time = ptime\<rparr>
      in (self\<lparr>available_time := end_time,
                scheduled_tasks := scheduled_tasks self @ [scheduled_task]\<rparr>,
          scheduled_task))"

text \<open>An entry of \<^verbatim>\<open>all_operations\<close> (a dict with the keys task, machines,
  processing_times and operation_id); the processing-times dict is an association list.\<close>

record op_info =
  op_task :: Task
  op_machines :: "string list"
  processing_times :: "(string \<times> int) list"
  operation_id :: int

text \<open>\<^verbatim>\<open>Individual\<close> of hybrid_ga_vns_scheduler.py.\<close>

record Individual =
  machine_assignment :: "int list"
  operation_sequence :: "int list"
  fitness :: fitness_val
  actual_makespan :: fitness_val
  schedule :: "ScheduledTask list"

text \<open>\<^verbatim>\<open>Individual(machine_assignment=..., operation_sequence=...)\<close> with the
  dataclass defaults.\<close>

definition new_Individual :: "int list \<Rightarrow> int list \<Rightarrow> Individual" where
  "new_Individual ma os =
     \<lparr>machine_assignment = ma, operation_sequence = os,
      fitness = PosInf, actual_makespan = PosInf, schedule = []\<rparr>"

text \<open>The fields of \<^verbatim>\<open>HybridGAVNSScheduler\<close> that the embedded methods read or
  write.  \<open>machines\<close> is \<^verbatim>\<open>list(self.machines.keys())\<close>; float-valued settings are
  rationals.\<close>

record Scheduler =
  machines :: "string list"
  all_operations :: "op_info list"
  operation_to_machines :: "int list list"
  sequence_priority_weights :: "(string \<times> rat) list"
  convergence_threshold :: rat
  use_archive_solutions :: bool
  solution_archive :: "Individual list"
  archive_size :: nat
  diversity_threshold :: rat
  use_tabu_search :: bool
  tabu_list :: "string list"
  tabu_tenure :: nat
  max_neighborhoods :: int
  critical_path_focus :: bool
  use_adaptive_crossover :: bool
  population_size :: int
  generations :: int

section \<open>The schedule decoder\<close>

text \<open>The unit key of \<^verbatim>\<open>evaluate_individual\<close>:
  \<^verbatim>\<open>task.order_id + str(task.task_id.split('_unit')[1].split('_')[0])\<close>.\<close>

definition unit_key :: "Task \<Rightarrow> error + string" where
  "unit_key t =
     bind_err (py_get (py_split (task_id t) ''_unit'') 1) (\<lambda>r.
     bind_err (py_get (py_split r ''_'') 0) (\<lambda>u.
     Inr (order_id t @ u)))"

text \<open>The local variables of the decoding loop: the fresh machine states, the list of
  scheduled tasks, and the nested \<^verbatim>\<open>defaultdict(int)\<close> of completion times (a missing
  entry reads as 0).\<close>

record decode_state =
  machine_states :: "string \<rightharpoonup> MachineState"
  ds_scheduled_tasks :: "ScheduledTask list"
  job_unit_completion :: "string \<Rightarrow> int \<Rightarrow> int"

definition init_decode_state :: "Scheduler \<Rightarrow> decode_state" where
  "init_decode_state s =
     \<lparr>machine_states = map_of (map (\<lambda>m. (m, new_MachineState m)) (machines s)),
      ds_scheduled_tasks = [],
      job_unit_completion = (\<lambda>k i. 0)\<rparr>"

text \<open>\<^verbatim>\<open>dict.get(key, default)\<close> on the processing-times table.\<close>

definition dict_get :: "(string \<times> int) list \<Rightarrow> string \<Rightarrow> int \<Rightarrow> int" where
  "dict_get d k dflt = (case map_of d k of Some v \<Rightarrow> v | None \<Rightarrow> dflt)"

definition lookup_state :: "(string \<rightharpoonup> MachineState) \<Rightarrow> string \<Rightarrow> error + MachineState" where
  "lookup_state ms k = (case ms k of None \<Rightarrow> Inl KeyError | Some m \<Rightarrow> Inr m)"

text \<open>One iteration of \<^verbatim>\<open>for op_id in individual.operation_sequence\<close>.\<close>

definition decode_step :: "Scheduler \<Rightarrow> Individual \<Rightarrow> decode_state \<Rightarrow> int \<Rightarrow> error + decode_state" where
  "decode_step s ind st op_id =
     bind_err (py_get (all_operations s) op_id) (\<lambda>info.
     let t = op_task info in
     bind_err (py_get (machine_assignment ind) op_id) (\<lambda>machine_idx.
     bind_err (py_get (machines s) machine_idx) (\<lambda>mid.
     let ptime = dict_get (processing_times info) mid 10 in
     bind_err (lookup_state (machine_states st) mid) (\<lambda>m.
     let start0 = available_time m in
     bind_err (if operation_idx t > 0
               then bind_err (unit_key t) (\<lambda>k.
                      Inr (max start0 (job_unit_completion st k (operation_idx t - 1))))
               else Inr start0) (\<lambda>start.
     let (m', scheduled_task) = schedule_task m t ptime (Some start) in
     bind_err (unit_key t) (\<lambda>k.
     Inr (st\<lparr>machine_states := (machine_states st)(mid \<mapsto> m'),
             ds_scheduled_tasks := ds_scheduled_tasks st @ [scheduled_task],
             job_unit_completion :=
               (job_unit_completion st)
                 (k := (job_unit_completion st k)
                         (operation_idx t := end_time scheduled_task))\<rparr>)))))))"

fun decode_loop :: "Scheduler \<Rightarrow> Individual \<Rightarrow> decode_state \<Rightarrow> int list \<Rightarrow> error + decode_state" where
  "decode_loop s ind st [] = Inr st"
| "decode_loop s ind st (op_id # ops) =
     (case decode_step s ind st op_id of
        Inl e \<Rightarrow> Inl e
      | Inr st' \<Rightarrow> decode_loop s ind st' ops)"

text \<open>\<^verbatim>\<open>max(task.end_time for task in scheduled_tasks) if scheduled_tasks else 0\<close>\<close>

definition makespan_of :: "ScheduledTask list \<Rightarrow> int" where
  "makespan_of ts = (case ts of [] \<Rightarrow> 0 | t # rest \<Rightarrow> fold max (map end_time rest) (end_time t))"

text \<open>\<^verbatim>\<open>calculate_similarity\<close>: the generator over the machine assignments raises
  IndexError when the second individual is shorter; each division raises
  ZeroDivisionError on an empty first individual.\<close>

definition calculate_similarity :: "Individual \<Rightarrow> Individual \<Rightarrow> error + rat" where
  "calculate_similarity ind1 ind2 =
     (let n = length (machine_assignment ind1); k = length (operation_sequence ind1) in
      if length (machine_assignment ind2) < n then Inl IndexError
      else if n = 0 then Inl ZeroDivisionError
      else
        let machine_similarity =
              of_nat (length (filter (\<lambda>i. machine_assignment ind1 ! i = machine_assignment ind2 ! i) [0..<n]))
                / of_nat n
        in if k = 0 then Inl ZeroDivisionError
           else
             let sequence_similarity =
                   of_nat (length (filter (\<lambda>i. i < length (operation_sequence ind2) \<and>
                                   operation_sequence ind1 ! i = operation_sequence ind2 ! i) [0..<k]))
                     / of_nat k
             in Inr ((machine_similarity + sequence_similarity) / 2))"

text \<open>The loop of \<^verbatim>\<open>_update_solution_archive\<close> that decides \<^verbatim>\<open>is_diverse\<close>.\<close>

fun is_diverse :: "rat \<Rightarrow> Individual \<Rightarrow> Individual list \<Rightarrow> error + bool" where
  "is_diverse thr ind [] = Inr True"
| "is_diverse thr ind (archived_ind # rest) =
     (case calculate_similarity ind archived_ind of
        Inl e \<Rightarrow> Inl e
      | Inr similarity \<Rightarrow>
          if similarity > 1 - thr then Inr False else is_diverse thr ind rest)"

definition update_solution_archive :: "Scheduler \<Rightarrow> Individual \<Rightarrow> error + Scheduler" where
  "update_solution_archive s ind =
     (case is_diverse (diversity_threshold s) ind (solution_archive s) of
        Inl e \<Rightarrow> Inl e
      | Inr False \<Rightarrow> Inr s
      | Inr True \<Rightarrow>
          let archive = solution_archive s @ [ind] in
          Inr (s\<lparr>solution_archive :=
                   (if length archive > archive_size s
                    then take (archive_size s) (sort_key fitness archive)
                    else archive)\<rparr>))"

text \<open>\<^verbatim>\<open>evaluate_individual\<close> mutates the individual and the scheduler in place, so
  the model returns the outcome (the returned fitness or the exception) together with
  the scheduler and the individual as they are when the call ends.  The fitness fields
  are assigned before the archive update and the schedule after it.\<close>

definition evaluate_individual ::
  "Scheduler \<Rightarrow> Individual \<Rightarrow> (error + fitness_val) \<times> Scheduler \<times> Individual" where
  "evaluate_individual s ind =
     (case decode_loop s ind (init_decode_state s) (operation_sequence ind) of
        Inl e \<Rightarrow> (Inl e, s, ind)
      | Inr st \<Rightarrow>
          let scheduled = ds_scheduled_tasks st;
              makespan = makespan_of scheduled;
              ind1 = ind\<lparr>fitness := Fin makespan, actual_makespan := Fin makespan\<rparr>
          in (case (if use_archive_solutions s then update_solution_archive s ind1 else Inr s) of
                Inl e \<Rightarrow> (Inl e, s, ind1)
              | Inr s' \<Rightarrow> (Inr (fitness ind1), s', ind1\<lparr>schedule := scheduled\<rparr>)))"

section \<open>Well-formed inputs of the decoder\<close>

definition raises :: "error + 'a \<Rightarrow> bool" where
  "raises r = (case r of Inl e \<Rightarrow> True | Inr x \<Rightarrow> False)"

text \<open>The three results of a call of \<^verbatim>\<open>evaluate_individual\<close>.\<close>

definition outcome :: "(error + fitness_val) \<times> Scheduler \<times> Individual \<Rightarrow> error + fitness_val" where
  "outcome r = fst r"

definition scheduler_after :: "(error + fitness_val) \<times> Scheduler \<times> Individual \<Rightarrow> Scheduler" where
  "scheduler_after r = fst (snd r)"

definition individual_after :: "(error + fitness_val) \<times> Scheduler \<times> Individual \<Rightarrow> Individual" where
  "individual_after r = snd (snd r)"

text \<open>\<open>operation_sequence\<close> is a permutation of the task indices \<open>0..n-1\<close>.\<close>

definition is_permutation :: "int list \<Rightarrow> nat \<Rightarrow> bool" where
  "is_permutation xs n = (mset xs = mset (map int [0..<n]))"

text \<open>What \<^verbatim>\<open>prepare_problem_data\<close> establishes: one list of eligible machine indices
  per task, each index a position of \<open>machines\<close>, and task ids that contain the
  \<^verbatim>\<open>_unit\<close> marker the unit key is cut from.\<close>

definition valid_problem :: "Scheduler \<Rightarrow> bool" where
  "valid_problem s =
     (length (operation_to_machines s) = length (all_operations s) \<and>
      (\<forall>idxs \<in> set (operation_to_machines s). \<forall>idx \<in> set idxs.
           0 \<le> idx \<and> nat idx < length (machines s)) \<and>
      (\<forall>info \<in> set (all_operations s). \<not> raises (unit_key (op_task info))))"

text \<open>A structurally valid chromosome: two vectors of size N, the sequence a
  permutation of \<open>0..N-1\<close>, every task on one of its eligible machines.\<close>

definition valid_chromosome :: "Scheduler \<Rightarrow> Individual \<Rightarrow> bool" where
  "valid_chromosome s ind =
     (length (machine_assignment ind) = length (all_operations s) \<and>
      is_permutation (operation_sequence ind) (length (all_operations s)) \<and>
      (\<forall>t \<in> set [0..<length (all_operations s)].
           machine_assignment ind ! t \<in> set (operation_to_machines s ! t)))"

text \<open>The weaker condition under which one loop iteration cannot raise: the indices
  it reads are non-negative and in range.  The assigned machine need not be eligible.\<close>

definition op_in_range :: "Scheduler \<Rightarrow> Individual \<Rightarrow> int \<Rightarrow> bool" where
  "op_in_range s ind op_id =
     (0 \<le> op_id \<and> nat op_id < length (all_operations s) \<and>
      nat op_id < length (machine_assignment ind) \<and>
      0 \<le> machine_assignment ind ! nat op_id \<and>
      nat (machine_assignment ind ! nat op_id) < length (machines s) \<and>
      \<not> raises (unit_key (op_task (all_operations s ! nat op_id))))"

definition sequence_in_range :: "Scheduler \<Rightarrow> Individual \<Rightarrow> bool" where
  "sequence_in_range s ind = (\<forall>op_id \<in> set (operation_sequence ind). op_in_range s ind op_id)"

definition nonneg_times :: "Scheduler \<Rightarrow> bool" where
  "nonneg_times s =
     (\<forall>info \<in> set (all_operations s). \<forall>d \<in> snd ` set (processing_times info). 0 \<le> d)"

section \<open>The decoder as the specification words it\<close>

text \<open>The unit of a task whose id parses.\<close>

definition the_unit :: "Task \<Rightarrow> string" where
  "the_unit t = (case unit_key t of Inr k \<Rightarrow> k | Inl e \<Rightarrow> [])"

text \<open>The completion recorded so far for operation \<open>i\<close> of unit \<open>k\<close>: the end time of
  the task of that unit and operation index decoded most recently, 0 when no such task
  has been decoded yet.\<close>

definition recorded_completion :: "ScheduledTask list \<Rightarrow> string \<Rightarrow> int \<Rightarrow> int" where
  "recorded_completion sched k i =
     (let xs = filter (\<lambda>x. unit_key (task x) = Inr k \<and> operation_idx (task x) = i) sched
      in if xs = [] then 0 else end_time (last xs))"

text \<open>One task of the walk, on the pair of the machine cursors and the schedule so
  far: look up the assigned machine and the duration; the start is the maximum of the
  machine's cursor and the recorded completion of the unit's preceding operation (a
  task that is the first operation of its unit has no predecessor and starts at the
  cursor); the end is start plus duration; the cursor of the machine advances to the
  end and the ScheduledTask is recorded.\<close>

definition spec_step ::
  "Scheduler \<Rightarrow> Individual \<Rightarrow> (string \<Rightarrow> int) \<times> ScheduledTask list \<Rightarrow> int
     \<Rightarrow> (string \<Rightarrow> int) \<times> ScheduledTask list" where
  "spec_step s ind cs op_id =
     (let cursor = fst cs; sched = snd cs;
          info = all_operations s ! nat op_id;
          t = op_task info;
          mid = machines s ! nat (machine_assignment ind ! nat op_id);
          duration = dict_get (processing_times info) mid 10;
          start = (if operation_idx t > 0
                   then max (cursor mid) (recorded_completion sched (the_unit t) (operation_idx t - 1))
                   else cursor mid);
          end = start + duration
      in (cursor(mid := end),
          sched @ [\<lparr>task = t, machine_id = mid, start_time = start, end_time = end,
                    processing_time = duration\<rparr>]))"

text \<open>All cursors start at 0 and the schedule empty; the sequence is walked in order.\<close>

definition spec_decode :: "Scheduler \<Rightarrow> Individual \<Rightarrow> (string \<Rightarrow> int) \<times> ScheduledTask list" where
  "spec_decode s ind = foldl (spec_step s ind) (\<lambda>m. 0, []) (operation_sequence ind)"

text \<open>The maximum end time over all scheduled tasks, 0 when there are none.\<close>

definition spec_makespan :: "ScheduledTask list \<Rightarrow> int" where
  "spec_makespan sched = (if sched = [] then 0 else Max (end_time ` set sched))"

text \<open>The relation between the loop state of the source and the pair of the
  specification.\<close>

definition state_rel :: "Scheduler \<Rightarrow> decode_state \<Rightarrow> (string \<Rightarrow> int) \<times> ScheduledTask list \<Rightarrow> bool" where
  "state_rel s st cs =
     (ds_scheduled_tasks st = snd cs \<and>
      (\<forall>m \<in> set (machines s). \<exists>ms. machine_states st m = Some ms \<and> ms_machine_id ms = m \<and>
           available_time ms = fst cs m) \<and>
      (\<forall>k i. job_unit_completion st k i = recorded_completion (snd cs) k i))"

section \<open>Machine exclusivity and precedence\<close>

text \<open>Of two tasks on the same machine, the one decoded first ends before the other
  starts, so their intervals \<open>[start, end)\<close> do not overlap.\<close>

definition no_overlap :: "ScheduledTask list \<Rightarrow> bool" where
  "no_overlap sched =
     (\<forall>j \<in> set [0..<length sched]. \<forall>i \<in> set [0..<j].
         machine_id (sched ! i) = machine_id (sched ! j) \<longrightarrow>
         end_time (sched ! i) \<le> start_time (sched ! j))"

text \<open>The invariant of the loop behind it: every machine state sits under its own id
  and its cursor is at or after the end of every task scheduled on it.\<close>

definition cursor_inv :: "decode_state \<Rightarrow> bool" where
  "cursor_inv st =
     (\<forall>m ms. machine_states st m = Some ms \<longrightarrow>
        ms_machine_id ms = m \<and>
        (\<forall>t \<in> set (ds_scheduled_tasks st). machine_id t = m \<longrightarrow> end_time t \<le> available_time ms))"

text \<open>Precedence for a decoded schedule: a task that is operation \<open>i+1\<close> of a unit
  starts no earlier than the end of the task that is operation \<open>i\<close> of the same unit.\<close>

definition precedence_ok :: "ScheduledTask list \<Rightarrow> bool" where
  "precedence_ok sched =
     (\<forall>a \<in> set sched. \<forall>b \<in> set sched.
         unit_key (task a) = unit_key (task b) \<and> operation_idx (task b) = operation_idx (task a) + 1
           \<longrightarrow> end_time a \<le> start_time b)"

section \<open>A concrete problem\<close>

text \<open>\<^verbatim>\<open>str(n)\<close> for a natural number.\<close>

fun str_nat :: "nat \<Rightarrow> string" where
  "str_nat n = (if n < 10 then [char_of (48 + n)] else str_nat (n div 10) @ [char_of (48 + n mod 10)])"

text \<open>The processing times \<^verbatim>\<open>load_machine_environment\<close> falls back to, per operation
  index.\<close>

definition default_processing_times :: "nat \<Rightarrow> (string \<times> int) list" where
  "default_processing_times op_idx =
     (if op_idx = 0 then [(''M1'', 12), (''M2'', 15), (''M3'', 13), (''M4'', 11)]
      else if op_idx = 1 then [(''M5'', 18), (''M6'', 22)]
      else if op_idx = 2 then [(''M7'', 20), (''M8'', 25)]
      else if op_idx = 3 then [(''M9'', 35), (''M10'', 30), (''M11'', 40)]
      else if op_idx = 4 then [(''M12'', 20), (''M13'', 18), (''M14'', 15), (''M15'', 22)]
      else if op_idx = 5 then [(''M16'', 15), (''M17'', 12), (''M18'', 10)]
      else [])"

text \<open>The machine lists of the six operations every job definition has.\<close>

definition job_machines :: "string list list" where
  "job_machines =
     [[''M1'', ''M2'', ''M3'', ''M4''], [''M5'', ''M6''], [''M7'', ''M8''],
      [''M9'', ''M10'', ''M11''], [''M12'', ''M13'', ''M14'', ''M15''],
      [''M16'', ''M17'', ''M18'']]"

text \<open>One order of one pair of pants, stored in \<^verbatim>\<open>a_1.json\<close>: six tasks.\<close>

definition pants_operations :: "op_info list" where
  "pants_operations =
     map (\<lambda>i. \<lparr>op_task = \<lparr>order_id = ''a_1_pants'', job_name = ''Job1'', operation_idx = int i,
                          task_id = ''a_1_pants_unit0_op'' @ str_nat i, quantity = 1\<rparr>,
               op_machines = job_machines ! i,
               processing_times = default_processing_times i,
               operation_id = int i\<rparr>) [0..<6]"

definition pants_scheduler :: Scheduler where
  "pants_scheduler =
     \<lparr>machines = concat job_machines,
      all_operations = pants_operations,
      operation_to_machines = [[0, 1, 2, 3], [4, 5], [6, 7], [8, 9, 10], [11, 12, 13, 14], [15, 16, 17]],
      sequence_priority_weights = [(''makespan'', 95 / 100), (''load_balance'', 3 / 100), (''flow_time'', 2 / 100)],
      convergence_threshold = 1 / 100000,
      use_archive_solutions = True,
      solution_archive = [],
      archive_size = 30,
      diversity_threshold = 15 / 100,
      use_tabu_search = True,
      tabu_list = [],
      tabu_tenure = 15,
      max_neighborhoods = 4,
      critical_path_focus = True,
      use_adaptive_crossover = True,
      population_size = 35,
      generations = 50\<rparr>"

text \<open>Every task on the first machine of its list, decoded in template order; the same
  assignment with the first two tasks exchanged in the sequence; and an assignment that
  puts the first task on M5, a machine without an entry in that task's table.\<close>

definition pants_in_order :: Individual where
  "pants_in_order = new_Individual [0, 4, 6, 8, 11, 15] [0, 1, 2, 3, 4, 5]"

definition pants_swapped :: Individual where
  "pants_swapped = new_Individual [0, 4, 6, 8, 11, 15] [1, 0, 2, 3, 4, 5]"

definition pants_ineligible :: Individual where
  "pants_ineligible = new_Individual [4, 4, 6, 8, 11, 15] [0, 1, 2, 3, 4, 5]"

section \<open>When the archive update cannot raise\<close>

text \<open>\<^verbatim>\<open>_update_solution_archive\<close> divides by the lengths of the individual's two
  vectors and indexes every archived individual up to the first length.  It cannot
  raise when the archive is switched off, or when the vectors are non-empty and no
  archived individual is shorter.\<close>

definition archive_cannot_raise :: "Scheduler \<Rightarrow> Individual \<Rightarrow> bool" where
  "archive_cannot_raise s ind =
     (\<not> use_archive_solutions s \<or>
      (machine_assignment ind \<noteq> [] \<and> operation_sequence ind \<noteq> [] \<and>
       (\<forall>a \<in> set (solution_archive s).
           length (machine_assignment ind) \<le> length (machine_assignment a))))"

section \<open>Genetic operators\<close>

text \<open>The operators draw from Python's \<^verbatim>\<open>random\<close> module.  In the model every draw
  is an argument of the operator: a theorem that holds for all arguments holds for every
  run.  A comparison \<^verbatim>\<open>random.random() < p\<close> is the Boolean it evaluates to.\<close>

text \<open>The slice \<^verbatim>\<open>xs[a:b]\<close> and the slice assignment \<^verbatim>\<open>xs[a:b] = ys\<close> for
  non-negative bounds; both clamp the bounds to the length of the list.\<close>

definition py_slice :: "'a list \<Rightarrow> nat \<Rightarrow> nat \<Rightarrow> 'a list" where
  "py_slice xs a b = drop a (take b xs)"

definition py_slice_assign :: "'a list \<Rightarrow> nat \<Rightarrow> nat \<Rightarrow> 'a list \<Rightarrow> 'a list" where
  "py_slice_assign xs a b ys = take a xs @ ys @ drop (max a b) xs"

text \<open>The loop shared by \<^verbatim>\<open>fill_remaining\<close> and \<^verbatim>\<open>fill_remaining_pbx\<close>:
  \<^verbatim>\<open>for i in range(size): if child_seq[i] == -1: child_seq[i] = remaining[j]; j += 1\<close>.\<close>

fun fill_loop :: "nat list \<Rightarrow> int list \<Rightarrow> int list \<Rightarrow> nat \<Rightarrow> error + int list" where
  "fill_loop [] child_seq remaining j = Inr child_seq"
| "fill_loop (i # rest) child_seq remaining j =
     (if i < length child_seq
      then (if child_seq ! i = - 1
            then (if j < length remaining
                  then fill_loop rest (child_seq[i := remaining ! j]) remaining (Suc j)
                  else Inl IndexError)
            else fill_loop rest child_seq remaining j)
      else Inl IndexError)"

text \<open>\<^verbatim>\<open>fill_remaining\<close> of \<^verbatim>\<open>order_crossover\<close>:
  \<^verbatim>\<open>remaining = [x for x in other_parent_seq if x not in child_seq]\<close>.\<close>

definition fill_remaining :: "nat \<Rightarrow> int list \<Rightarrow> int list \<Rightarrow> error + int list" where
  "fill_remaining sz child_seq other_parent_seq =
     fill_loop [0..<sz] child_seq (filter (\<lambda>x. x \<notin> set child_seq) other_parent_seq) 0"

text \<open>\<^verbatim>\<open>fill_remaining_pbx\<close> of \<^verbatim>\<open>position_based_crossover\<close>:
  \<^verbatim>\<open>remaining = [op for op in other_parent_seq if op not in selected_ops]\<close>.\<close>

definition fill_remaining_pbx :: "nat \<Rightarrow> int list \<Rightarrow> int list \<Rightarrow> int set \<Rightarrow> error + int list" where
  "fill_remaining_pbx sz child_seq other_parent_seq selected_ops =
     fill_loop [0..<sz] child_seq (filter (\<lambda>op. op \<notin> selected_ops) other_parent_seq) 0"

text \<open>The loop that deals the machine assignments of the two parents to the two
  children by a coin per position; it reads position \<open>i\<close> of both parents for every
  \<open>i < n\<close>.\<close>

definition cross_machines ::
  "(nat \<Rightarrow> bool) \<Rightarrow> nat \<Rightarrow> Individual \<Rightarrow> Individual \<Rightarrow> error + int list \<times> int list" where
  "cross_machines coin n parent1 parent2 =
     (if length (machine_assignment parent1) < n \<or> length (machine_assignment parent2) < n
      then Inl IndexError
      else Inr (map (\<lambda>i. if coin i then machine_assignment parent1 ! i
                          else machine_assignment parent2 ! i) [0..<n],
                map (\<lambda>i. if coin i then machine_assignment parent2 ! i
                          else machine_assignment parent1 ! i) [0..<n]))"

text \<open>\<^verbatim>\<open>order_crossover\<close>.  \<open>sample\<close> is \<^verbatim>\<open>random.sample(range(size), 2)\<close>, which
  raises ValueError when \<open>size < 2\<close>; \<open>coin i\<close> is the draw of the machine loop at \<open>i\<close>.\<close>

definition order_crossover ::
  "nat \<times> nat \<Rightarrow> (nat \<Rightarrow> bool) \<Rightarrow> Individual \<Rightarrow> Individual \<Rightarrow> error + Individual \<times> Individual" where
  "order_crossover sample coin parent1 parent2 =
     (let sz = length (operation_sequence parent1) in
      if sz < 2 then Inl ValueError
      else
        let start = min (fst sample) (snd sample);
            end = max (fst sample) (snd sample);
            child1_seq = py_slice_assign (replicate sz (- 1)) start end
                           (py_slice (operation_sequence parent1) start end);
            child2_seq = py_slice_assign (replicate sz (- 1)) start end
                           (py_slice (operation_sequence parent2) start end)
        in bind_err (fill_remaining sz child1_seq (operation_sequence parent2)) (\<lambda>c1.
           bind_err (fill_remaining sz child2_seq (operation_sequence parent1)) (\<lambda>c2.
           bind_err (cross_machines coin sz parent1 parent2) (\<lambda>ms.
           Inr (new_Individual (fst ms) c1, new_Individual (snd ms) c2)))))"

text \<open>\<^verbatim>\<open>uniform_crossover\<close>.  One step of the sequence loop appends a gene to a child
  unless the child has used it.\<close>

definition append_unused :: "int list \<times> int set \<Rightarrow> int \<Rightarrow> int list \<times> int set" where
  "append_unused cu x = (if x \<in> snd cu then cu else (fst cu @ [x], insert x (snd cu)))"

fun uniform_loop ::
  "(nat \<Rightarrow> bool) \<Rightarrow> int list \<Rightarrow> int list \<Rightarrow> nat list
     \<Rightarrow> (int list \<times> int set) \<times> (int list \<times> int set)
     \<Rightarrow> error + (int list \<times> int set) \<times> (int list \<times> int set)" where
  "uniform_loop coin seq1 seq2 [] st = Inr st"
| "uniform_loop coin seq1 seq2 (i # rest) st =
     (if i < length seq1 \<and> i < length seq2
      then uniform_loop coin seq1 seq2 rest
             (if coin i
              then (append_unused (fst st) (seq1 ! i), append_unused (snd st) (seq2 ! i))
              else (append_unused (fst st) (seq2 ! i), append_unused (snd st) (seq1 ! i)))
      else Inl IndexError)"

text \<open>\<open>coin_m\<close> is the coin of the machine loop and \<open>coin_s\<close> that of the sequence
  loop; the missing operations are appended in ascending order.\<close>

definition uniform_crossover ::
  "(nat \<Rightarrow> bool) \<Rightarrow> (nat \<Rightarrow> bool) \<Rightarrow> Individual \<Rightarrow> Individual \<Rightarrow> error + Individual \<times> Individual" where
  "uniform_crossover coin_m coin_s parent1 parent2 =
     (let sz = length (operation_sequence parent1) in
      bind_err (cross_machines coin_m (length (machine_assignment parent1)) parent1 parent2) (\<lambda>ms.
      bind_err (uniform_loop coin_s (operation_sequence parent1) (operation_sequence parent2)
                  [0..<sz] (([], {}), ([], {}))) (\<lambda>st.
      let all_ops = int ` {0..<sz};
          missing1 = all_ops - snd (fst st);
          missing2 = all_ops - snd (snd st)
      in Inr (new_Individual (fst ms) (fst (fst st) @ sorted_list_of_set missing1),
              new_Individual (snd ms) (fst (snd st) @ sorted_list_of_set missing2)))))"

text \<open>\<^verbatim>\<open>position_based_crossover\<close>.  The two loops over the sampled positions write
  a parent's value into a child at the same position.\<close>

fun copy_positions :: "nat list \<Rightarrow> 'a list \<Rightarrow> 'a list \<Rightarrow> error + 'a list" where
  "copy_positions [] src child = Inr child"
| "copy_positions (pos # rest) src child =
     (if pos < length src \<and> pos < length child
      then copy_positions rest src (child[pos := src ! pos])
      else Inl IndexError)"

text \<open>\<open>positions\<close> is \<^verbatim>\<open>random.sample(range(size), size // 3)\<close>.\<close>

definition position_based_crossover ::
  "nat list \<Rightarrow> Individual \<Rightarrow> Individual \<Rightarrow> error + Individual \<times> Individual" where
  "position_based_crossover positions parent1 parent2 =
     (let sz = length (operation_sequence parent1) in
      bind_err (copy_positions positions (machine_assignment parent2) (machine_assignment parent1)) (\<lambda>m1.
      bind_err (copy_positions positions (machine_assignment parent1) (machine_assignment parent2)) (\<lambda>m2.
      bind_err (copy_positions positions (operation_sequence parent1) (replicate sz (- 1))) (\<lambda>child1_seq.
      bind_err (copy_positions positions (operation_sequence parent2) (replicate sz (- 1))) (\<lambda>child2_seq.
      let selected_ops1 = set (map (\<lambda>pos. operation_sequence parent1 ! pos) positions);
          selected_ops2 = set (map (\<lambda>pos. operation_sequence parent2 ! pos) positions)
      in bind_err (fill_remaining_pbx sz child1_seq (operation_sequence parent2) selected_ops1) (\<lambda>c1.
         bind_err (fill_remaining_pbx sz child2_seq (operation_sequence parent1) selected_ops2) (\<lambda>c2.
         Inr (new_Individual m1 c1, new_Individual m2 c2))))))))"

text \<open>What the two samples are: two distinct positions, and \<open>size // 3\<close> distinct
  positions.\<close>

definition valid_pair_sample :: "nat \<Rightarrow> nat \<times> nat \<Rightarrow> bool" where
  "valid_pair_sample sz sample = (fst sample < sz \<and> snd sample < sz \<and> fst sample \<noteq> snd sample)"

definition valid_positions_sample :: "nat \<Rightarrow> nat list \<Rightarrow> bool" where
  "valid_positions_sample sz positions =
     (distinct positions \<and> list_all (\<lambda>pos. pos < sz) positions \<and> length positions = sz div 3)"

section \<open>Mutation\<close>

text \<open>\<^verbatim>\<open>task.end_time >= makespan * factor\<close> with the float factor as a rational; an
  infinite makespan is reached by no end time.\<close>

definition reaches :: "int \<Rightarrow> fitness_val \<Rightarrow> rat \<Rightarrow> bool" where
  "reaches e makespan factor =
     (case makespan of PosInf \<Rightarrow> False | Fin m \<Rightarrow> of_int m * factor \<le> of_int e)"

text \<open>The inner loop of \<^verbatim>\<open>_find_critical_operations\<close>: the first operation id whose
  task has the task id and operation index of the scheduled task.\<close>

definition find_operation :: "Scheduler \<Rightarrow> ScheduledTask \<Rightarrow> int option" where
  "find_operation s x =
     map_option (\<lambda>p. int (fst p))
       (find (\<lambda>p. task_id (op_task (snd p)) = task_id (task x) \<and>
                   operation_idx (op_task (snd p)) = operation_idx (task x))
          (enumerate 0 (all_operations s)))"

text \<open>\<^verbatim>\<open>_find_critical_operations\<close> (the first of the two bodies the method has; the
  second follows a return and never runs).\<close>

definition find_critical_operations :: "Scheduler \<Rightarrow> Individual \<Rightarrow> int list" where
  "find_critical_operations s ind =
     take 5 (List.map_filter
       (\<lambda>x. if reaches (end_time x) (actual_makespan ind) (95 / 100) then find_operation s x else None)
       (schedule ind))"

datatype mutation_strategy = Swap | Insert | Reverse

text \<open>The draws of one call of \<^verbatim>\<open>mutate_individual\<close>: per gene whether it mutates
  and the index \<^verbatim>\<open>random.choice\<close> picks; the strategy; whether the sequence mutates; and
  the two positions the strategy draws.\<close>

record mutation_draws =
  mutate_gene :: "nat \<Rightarrow> bool"
  choice_gene :: "nat \<Rightarrow> nat"
  strategy :: mutation_strategy
  mutate_sequence :: bool
  draw1 :: nat
  draw2 :: nat

fun mapM_err :: "('a \<Rightarrow> error + 'b) \<Rightarrow> 'a list \<Rightarrow> error + 'b list" where
  "mapM_err f [] = Inr []"
| "mapM_err f (x # xs) =
     (case f x of
        Inl e \<Rightarrow> Inl e
      | Inr y \<Rightarrow> (case mapM_err f xs of Inl e \<Rightarrow> Inl e | Inr ys \<Rightarrow> Inr (y # ys)))"

text \<open>\<^verbatim>\<open>self.operation_to_machines[i]\<close>, a dict keyed by the operation ids.\<close>

definition dict_index :: "'a list \<Rightarrow> nat \<Rightarrow> error + 'a" where
  "dict_index xs i = (if i < length xs then Inr (xs ! i) else Inl KeyError)"

text \<open>\<^verbatim>\<open>random.choice(xs)\<close> with the drawn index.\<close>

definition random_choice :: "'a list \<Rightarrow> nat \<Rightarrow> error + 'a" where
  "random_choice xs k = (if k < length xs then Inr (xs ! k) else Inl IndexError)"

text \<open>The machine of gene \<open>i\<close> after the machine-assignment loop.\<close>

definition mutated_machine :: "Scheduler \<Rightarrow> mutation_draws \<Rightarrow> Individual \<Rightarrow> nat \<Rightarrow> error + int" where
  "mutated_machine s d ind i =
     (if mutate_gene d i
      then bind_err (dict_index (operation_to_machines s) i) (\<lambda>available_machines.
        if critical_path_focus s
        then (if length available_machines > 1
              then bind_err (py_get (all_operations s) (int i)) (\<lambda>info.
                   bind_err (mapM_err (\<lambda>machine_idx.
                               bind_err (py_get (machines s) machine_idx) (\<lambda>mid.
                               Inr (machine_idx, dict_get (processing_times info) mid 999)))
                             available_machines) (\<lambda>machine_options.
                   let sorted_options = sort_key snd machine_options;
                       top_machines = take (max 1 (length sorted_options div 2)) sorted_options
                   in bind_err (random_choice top_machines (choice_gene d i)) (\<lambda>c. Inr (fst c))))
              else Inr (machine_assignment ind ! i))
        else random_choice available_machines (choice_gene d i))
      else Inr (machine_assignment ind ! i))"

text \<open>\<^verbatim>\<open>seq[i], seq[j] = seq[j], seq[i]\<close>\<close>

definition swap_positions :: "int list \<Rightarrow> nat \<Rightarrow> nat \<Rightarrow> error + int list" where
  "swap_positions seq i j =
     (if i < length seq \<and> j < length seq then Inr (seq[i := seq ! j, j := seq ! i])
      else Inl IndexError)"

text \<open>The three sequence strategies.  In the swap, \<open>draw1\<close> and \<open>draw2\<close> are the two
  positions that \<^verbatim>\<open>random.sample\<close>, \<^verbatim>\<open>random.choice\<close> and \<^verbatim>\<open>random.randint\<close>
  deliver; \<^verbatim>\<open>random.choice\<close> raises on an empty list and \<^verbatim>\<open>random.sample\<close> of two
  from fewer than two.\<close>

definition mutate_swap :: "Scheduler \<Rightarrow> mutation_draws \<Rightarrow> Individual \<Rightarrow> error + int list" where
  "mutate_swap s d ind =
     (let seq = operation_sequence ind; critical_ops = find_critical_operations s ind in
      if critical_path_focus s \<and> critical_ops \<noteq> []
      then
        let critical_positions = filter (\<lambda>i. seq ! i \<in> set critical_ops) [0..<length seq] in
        if length critical_positions \<ge> 2 then swap_positions seq (draw1 d) (draw2 d)
        else if critical_positions = [] then Inl IndexError
        else swap_positions seq (draw1 d) (draw2 d)
      else if length seq < 2 then Inl ValueError
      else swap_positions seq (draw1 d) (draw2 d))"

text \<open>\<^verbatim>\<open>op = seq.pop(i); seq.insert(j, op)\<close>; \<^verbatim>\<open>random.randint(0, size - 1)\<close> raises
  ValueError on the empty range.\<close>

definition mutate_insert :: "mutation_draws \<Rightarrow> Individual \<Rightarrow> error + int list" where
  "mutate_insert d ind =
     (let seq = operation_sequence ind in
      if seq = [] then Inl ValueError
      else if draw1 d < length seq
      then let op = seq ! draw1 d;
               popped = take (draw1 d) seq @ drop (Suc (draw1 d)) seq
           in Inr (take (draw2 d) popped @ [op] @ drop (draw2 d) popped)
      else Inl IndexError)"

text \<open>\<^verbatim>\<open>seq[start:end+1] = seq[start:end+1][::-1]\<close>\<close>

definition mutate_reverse :: "mutation_draws \<Rightarrow> Individual \<Rightarrow> error + int list" where
  "mutate_reverse d ind =
     (let seq = operation_sequence ind in
      if seq = [] then Inl ValueError
      else Inr (py_slice_assign seq (draw1 d) (Suc (draw2 d))
                  (rev (py_slice seq (draw1 d) (Suc (draw2 d))))))"

text \<open>\<^verbatim>\<open>mutate_individual\<close> changes the individual in place; the model returns the
  changed individual.  The rates only decide how likely a draw is.\<close>

definition mutate_individual :: "Scheduler \<Rightarrow> mutation_draws \<Rightarrow> Individual \<Rightarrow> error + Individual" where
  "mutate_individual s d ind =
     bind_err (mapM_err (mutated_machine s d ind) [0..<length (machine_assignment ind)]) (\<lambda>ma.
     if mutate_sequence d
     then bind_err (case strategy d of
                      Swap \<Rightarrow> mutate_swap s d ind
                    | Insert \<Rightarrow> mutate_insert d ind
                    | Reverse \<Rightarrow> mutate_reverse d ind) (\<lambda>seq.
          Inr (ind\<lparr>machine_assignment := ma, operation_sequence := seq\<rparr>))
     else Inr (ind\<lparr>machine_assignment := ma\<rparr>))"

text \<open>The draws \<^verbatim>\<open>random\<close> can deliver for an individual of \<open>n\<close> tasks: positions
  below \<open>n\<close>, the end of a reversal between its start and \<open>min (start + 5) (n - 1)\<close>, and
  the choice for a gene within the list it is chosen from.\<close>

definition valid_mutation_draws :: "Scheduler \<Rightarrow> nat \<Rightarrow> mutation_draws \<Rightarrow> bool" where
  "valid_mutation_draws s n d =
     (draw1 d < n \<and> draw2 d < n \<and>
      (strategy d = Reverse \<longrightarrow> draw1 d \<le> draw2 d \<and> draw2 d \<le> draw1 d + 5) \<and>
      (\<forall>i \<in> set [0..<n]. choice_gene d i < max 1 (length (operation_to_machines s ! i) div 2)))"

section \<open>The filling loop by recursion on the child\<close>

text \<open>What \<open>fill_loop\<close> computes when it scans a whole child from the left: every
  \<open>-1\<close> is replaced by the next remaining operation.  Used in the proofs only.\<close>

fun fill_list :: "int list \<Rightarrow> int list \<Rightarrow> error + int list" where
  "fill_list [] remaining = Inr []"
| "fill_list (c # cs) remaining =
     (if c = - 1
      then (case remaining of
              [] \<Rightarrow> Inl IndexError
            | r # rs \<Rightarrow> (case fill_list cs rs of Inl e \<Rightarrow> Inl e | Inr res \<Rightarrow> Inr (r # res)))
      else (case fill_list cs remaining of Inl e \<Rightarrow> Inl e | Inr res \<Rightarrow> Inr (c # res)))"

text \<open>Draws for the examples: every second gene mutates and takes the first of its
  best machines; the sequence mutates by a swap of positions 0 and 3.\<close>

definition example_draws :: mutation_draws where
  "example_draws =
     \<lparr>mutate_gene = (\<lambda>i. even i), choice_gene = (\<lambda>i. 0), strategy = Swap,
      mutate_sequence = True, draw1 = 0, draw2 = 3\<rparr>"

section \<open>The neighbourhood moves\<close>

text \<open>\<^verbatim>\<open>str(i)\<close> for an integer, for the move descriptions.\<close>

definition str_int :: "int \<Rightarrow> string" where
  "str_int i = (if i < 0 then CHR ''-'' # str_nat (nat (- i)) else str_nat (nat i))"

text \<open>\<^verbatim>\<open>xs.index(x)\<close>: the first position of \<open>x\<close>, ValueError when it is absent.\<close>

definition py_index :: "'a list \<Rightarrow> 'a \<Rightarrow> error + nat" where
  "py_index xs x = (if x \<in> set xs then Inr (length (takeWhile (\<lambda>y. y \<noteq> x) xs)) else Inl ValueError)"

text \<open>\<^verbatim>\<open>xs[i] = v\<close> with Python's index rule.\<close>

definition py_set :: "'a list \<Rightarrow> int \<Rightarrow> 'a \<Rightarrow> error + 'a list" where
  "py_set xs i v =
     (if 0 \<le> i \<and> i < int (length xs) then Inr (xs[nat i := v])
      else if i < 0 \<and> - int (length xs) \<le> i then Inr (xs[nat (int (length xs) + i) := v])
      else Inl IndexError)"

text \<open>\<^verbatim>\<open>self.operation_to_machines[op_id]\<close> for an integer key.\<close>

definition machines_of :: "Scheduler \<Rightarrow> int \<Rightarrow> error + int list" where
  "machines_of s op_id =
     (if 0 \<le> op_id \<and> nat op_id < length (operation_to_machines s)
      then Inr (operation_to_machines s ! nat op_id) else Inl KeyError)"

text \<open>The draws of one call of \<^verbatim>\<open>variable_neighborhood_search\<close>: the two positions
  of \<^verbatim>\<open>random.sample(late_operations, 2)\<close> and the value of
  \<^verbatim>\<open>random.randint(2, min(8, current_pos))\<close>.\<close>

record vns_draws =
  sample_late :: "nat \<times> nat"
  reschedule_offset :: nat

subsection \<open>Neighbourhood 1: \<^verbatim>\<open>_critical_path_machine_reassignment_tabu\<close>\<close>

text \<open>The inner loop over the available machines: the first machine other than the
  current one with the least processing time (default 999), with \<open>None\<close> for the initial
  \<^verbatim>\<open>best_machine = None\<close> and \<^verbatim>\<open>min_time = float('inf')\<close>.\<close>

fun best_alternative ::
  "Scheduler \<Rightarrow> op_info \<Rightarrow> int \<Rightarrow> int list \<Rightarrow> (int \<times> int) option \<Rightarrow> error + (int \<times> int) option" where
  "best_alternative s info current_machine [] best = Inr best"
| "best_alternative s info current_machine (machine_idx # rest) best =
     (if machine_idx \<noteq> current_machine
      then bind_err (py_get (machines s) machine_idx) (\<lambda>mid.
           let proc_time = dict_get (processing_times info) mid 999 in
           best_alternative s info current_machine rest
             (case best of
                None \<Rightarrow> Some (machine_idx, proc_time)
              | Some b \<Rightarrow> if proc_time < snd b then Some (machine_idx, proc_time) else best))
      else best_alternative s info current_machine rest best)"

fun reassign_loop :: "Scheduler \<Rightarrow> Individual \<Rightarrow> int list \<Rightarrow> error + string option \<times> Individual" where
  "reassign_loop s ind [] = Inr (None, ind)"
| "reassign_loop s ind (op_id # rest) =
     bind_err (machines_of s op_id) (\<lambda>available_machines.
     if length available_machines > 1
     then bind_err (py_get (machine_assignment ind) op_id) (\<lambda>current_machine.
          bind_err (py_get (all_operations s) op_id) (\<lambda>info.
          bind_err (best_alternative s info current_machine available_machines None) (\<lambda>best.
          case best of
            None \<Rightarrow> reassign_loop s ind rest
          | Some b \<Rightarrow>
              bind_err (py_set (machine_assignment ind) op_id (fst b)) (\<lambda>ma.
              Inr (Some (''reassign_op'' @ str_int op_id @ ''_from_m'' @ str_int current_machine
                         @ ''_to_m'' @ str_int (fst b)),
                   ind\<lparr>machine_assignment := ma\<rparr>)))))
     else reassign_loop s ind rest)"

definition critical_path_machine_reassignment_tabu ::
  "Scheduler \<Rightarrow> Individual \<Rightarrow> error + string option \<times> Individual" where
  "critical_path_machine_reassignment_tabu s ind =
     reassign_loop s ind (take 3 (find_critical_operations s ind))"

subsection \<open>Neighbourhood 2: \<^verbatim>\<open>_makespan_focused_operation_swap\<close>\<close>

definition makespan_focused_operation_swap ::
  "vns_draws \<Rightarrow> Scheduler \<Rightarrow> Individual \<Rightarrow> error + string option \<times> Individual" where
  "makespan_focused_operation_swap d s ind =
     (let late_operations = List.map_filter
            (\<lambda>x. if reaches (end_time x) (actual_makespan ind) (85 / 100) then find_operation s x else None)
            (schedule ind)
      in if length late_operations \<ge> 2
         then bind_err (random_choice late_operations (fst (sample_late d))) (\<lambda>op1.
              bind_err (random_choice late_operations (snd (sample_late d))) (\<lambda>op2.
              bind_err (py_index (operation_sequence ind) op1) (\<lambda>pos1.
              bind_err (py_index (operation_sequence ind) op2) (\<lambda>pos2.
              if abs (int pos1 - int pos2) > 5
              then bind_err (swap_positions (operation_sequence ind) pos1 pos2) (\<lambda>seq.
                   Inr (Some (''swap_ops_'' @ str_int op1 @ ''_'' @ str_int op2),
                        ind\<lparr>operation_sequence := seq\<rparr>))
              else Inr (None, ind)))))
         else Inr (None, ind))"

subsection \<open>Neighbourhood 3: \<^verbatim>\<open>_critical_load_balancing\<close>\<close>

text \<open>\<^verbatim>\<open>d[k] += v\<close> and \<^verbatim>\<open>d[k].append(v)\<close> on a defaultdict, kept in insertion
  order.\<close>

definition add_load :: "(string \<times> int) list \<Rightarrow> string \<Rightarrow> int \<Rightarrow> (string \<times> int) list" where
  "add_load loads k v =
     (if k \<in> fst ` set loads then map (\<lambda>p. if fst p = k then (k, snd p + v) else p) loads
      else loads @ [(k, v)])"

definition add_operation :: "(string \<times> int list) list \<Rightarrow> string \<Rightarrow> int \<Rightarrow> (string \<times> int list) list" where
  "add_operation ops k v =
     (if k \<in> fst ` set ops then map (\<lambda>p. if fst p = k then (k, snd p @ [v]) else p) ops
      else ops @ [(k, [v])])"

fun load_loop ::
  "Scheduler \<Rightarrow> Individual \<Rightarrow> int list \<Rightarrow> (string \<times> int) list \<times> (string \<times> int list) list
     \<Rightarrow> error + (string \<times> int) list \<times> (string \<times> int list) list" where
  "load_loop s ind [] acc = Inr acc"
| "load_loop s ind (op_id # rest) acc =
     bind_err (py_get (machine_assignment ind) op_id) (\<lambda>machine_idx.
     bind_err (py_get (machines s) machine_idx) (\<lambda>mid.
     bind_err (py_get (all_operations s) op_id) (\<lambda>info.
     load_loop s ind rest
       (add_load (fst acc) mid (dict_get (processing_times info) mid 10),
        add_operation (snd acc) mid op_id))))"

text \<open>\<^verbatim>\<open>max(d, key=d.get)\<close> and \<^verbatim>\<open>min(d, key=d.get)\<close>: the first key with the greatest
  (least) value.\<close>

fun first_max :: "(string \<times> int) list \<Rightarrow> (string \<times> int) \<Rightarrow> string \<times> int" where
  "first_max [] best = best"
| "first_max (p # rest) best = first_max rest (if snd p > snd best then p else best)"

fun first_min :: "(string \<times> int) list \<Rightarrow> (string \<times> int) \<Rightarrow> string \<times> int" where
  "first_min [] best = best"
| "first_min (p # rest) best = first_min rest (if snd p < snd best then p else best)"

text \<open>The loop over the operations of the most loaded machine: the first one that may
  run on the least loaded machine is moved there.\<close>

fun balance_loop :: "Scheduler \<Rightarrow> Individual \<Rightarrow> string \<Rightarrow> int list \<Rightarrow> error + string option \<times> Individual" where
  "balance_loop s ind min_machine [] = Inr (None, ind)"
| "balance_loop s ind min_machine (op_id # rest) =
     bind_err (machines_of s op_id) (\<lambda>available_machines.
     case find (\<lambda>p. snd p = min_machine \<and> int (fst p) \<in> set available_machines)
            (enumerate 0 (machines s)) of
       None \<Rightarrow> balance_loop s ind min_machine rest
     | Some p \<Rightarrow>
         bind_err (py_get (machine_assignment ind) op_id) (\<lambda>old_machine.
         bind_err (py_set (machine_assignment ind) op_id (int (fst p))) (\<lambda>ma.
         Inr (Some (''balance_op'' @ str_int op_id @ ''_from_m'' @ str_int old_machine
                    @ ''_to_m'' @ str_nat (fst p)),
              ind\<lparr>machine_assignment := ma\<rparr>))))"

definition critical_load_balancing :: "Scheduler \<Rightarrow> Individual \<Rightarrow> error + string option \<times> Individual" where
  "critical_load_balancing s ind =
     bind_err (load_loop s ind (operation_sequence ind) ([], [])) (\<lambda>acc.
     case fst acc of
       [] \<Rightarrow> Inr (None, ind)
     | p # rest \<Rightarrow>
         let max_machine = first_max rest p;
             min_machine = first_min rest p;
             load_difference = snd max_machine - snd min_machine
         in if (of_int load_difference :: rat) > of_int (snd max_machine) * (1 / 10)
            then balance_loop s ind (fst min_machine)
                   (case map_of (snd acc) (fst max_machine) of None \<Rightarrow> [] | Some ops \<Rightarrow> ops)
            else Inr (None, ind))"

subsection \<open>Neighbourhood 4: \<^verbatim>\<open>_advanced_sequence_optimization\<close>\<close>

fun reschedule_loop :: "vns_draws \<Rightarrow> Individual \<Rightarrow> int list \<Rightarrow> error + string option \<times> Individual" where
  "reschedule_loop d ind [] = Inr (None, ind)"
| "reschedule_loop d ind (op_id # rest) =
     bind_err (py_index (operation_sequence ind) op_id) (\<lambda>current_pos.
     if current_pos > 3
     then let new_pos = current_pos - reschedule_offset d;
              seq = operation_sequence ind;
              popped = take current_pos seq @ drop (Suc current_pos) seq
          in Inr (Some (''reschedule_critical_op'' @ str_int op_id @ ''_from_'' @ str_nat current_pos
                        @ ''_to_'' @ str_nat new_pos),
                  ind\<lparr>operation_sequence :=
                         take new_pos popped @ [seq ! current_pos] @ drop new_pos popped\<rparr>)
     else reschedule_loop d ind rest)"

definition advanced_sequence_optimization ::
  "vns_draws \<Rightarrow> Scheduler \<Rightarrow> Individual \<Rightarrow> error + string option \<times> Individual" where
  "advanced_sequence_optimization d s ind =
     (let critical_ops = find_critical_operations s ind in
      if length critical_ops \<ge> 2 then reschedule_loop d ind (take 2 critical_ops)
      else Inr (None, ind))"

section \<open>Variable neighbourhood search\<close>

text \<open>The move of a neighbourhood, applied to the copy \<open>current_individual\<close>.\<close>

definition neighborhood_move ::
  "vns_draws \<Rightarrow> Scheduler \<Rightarrow> int \<Rightarrow> Individual \<Rightarrow> error + string option \<times> Individual" where
  "neighborhood_move d s neighborhood current_individual =
     (if neighborhood = 1 then critical_path_machine_reassignment_tabu s current_individual
      else if neighborhood = 2 then makespan_focused_operation_swap d s current_individual
      else if neighborhood = 3 then critical_load_balancing s current_individual
      else if neighborhood = 4 then advanced_sequence_optimization d s current_individual
      else Inr (None, current_individual))"

text \<open>\<^verbatim>\<open>self.use_tabu_search and move_description and move_description in self.tabu_list\<close>;
  \<open>None\<close> and the empty string are false.\<close>

definition is_tabu :: "Scheduler \<Rightarrow> string option \<Rightarrow> bool" where
  "is_tabu s move_description =
     (use_tabu_search s \<and>
      (case move_description of None \<Rightarrow> False | Some m \<Rightarrow> m \<noteq> [] \<and> m \<in> set (tabu_list s)))"

text \<open>The accepted move is appended to the tabu list, which drops its oldest entry
  when it grows beyond the tenure.\<close>

definition push_tabu :: "Scheduler \<Rightarrow> string option \<Rightarrow> Scheduler" where
  "push_tabu s move_description =
     (case move_description of
        None \<Rightarrow> s
      | Some m \<Rightarrow>
          if use_tabu_search s \<and> m \<noteq> []
          then let extended = tabu_list s @ [m]
               in s\<lparr>tabu_list := (if length extended > tabu_tenure s then drop 1 extended
                                  else extended)\<rparr>
          else s)"

text \<open>The loop \<^verbatim>\<open>for neighborhood in range(1, min(self.max_neighborhoods + 1, 5))\<close>.
  \<open>best_individual\<close> and \<open>best_fitness\<close> change only in the iteration that breaks.\<close>

fun vns_loop ::
  "vns_draws \<Rightarrow> Scheduler \<Rightarrow> Individual \<Rightarrow> fitness_val \<Rightarrow> int list \<Rightarrow> error + Scheduler \<times> Individual" where
  "vns_loop d s best_individual best_fitness [] = Inr (s, best_individual)"
| "vns_loop d s best_individual best_fitness (neighborhood # rest) =
     (case neighborhood_move d s neighborhood best_individual of
        Inl e \<Rightarrow> Inl e
      | Inr moved \<Rightarrow>
          if is_tabu s (fst moved) then vns_loop d s best_individual best_fitness rest
          else
            (case outcome (evaluate_individual s (snd moved)) of
               Inl e \<Rightarrow> Inl e
             | Inr fitness_value \<Rightarrow>
                 if fitness_value < best_fitness
                 then Inr (push_tabu (scheduler_after (evaluate_individual s (snd moved))) (fst moved),
                           individual_after (evaluate_individual s (snd moved)))
                 else vns_loop d (scheduler_after (evaluate_individual s (snd moved)))
                        best_individual best_fitness rest))"

definition vns_neighborhoods :: "Scheduler \<Rightarrow> int list" where
  "vns_neighborhoods s = map int [1..<nat (min (max_neighborhoods s + 1) 5)]"

definition variable_neighborhood_search ::
  "vns_draws \<Rightarrow> Scheduler \<Rightarrow> Individual \<Rightarrow> error + Scheduler \<times> Individual" where
  "variable_neighborhood_search d s individual =
     vns_loop d s individual (fitness individual) (vns_neighborhoods s)"



text \<open>Draws for the examples, and the first pants individual after its evaluation.\<close>

definition example_vns_draws :: vns_draws where
  "example_vns_draws = \<lparr>sample_late = (0, 1), reschedule_offset = 2\<rparr>"



section \<open>The generational loop\<close>

text \<open>\<^verbatim>\<open>evaluate_individual\<close> as the search calls it: an exception ends the search, so
  only the scheduler and the individual of a call that returns are needed.\<close>

definition evaluated :: "Scheduler \<Rightarrow> Individual \<Rightarrow> error + Scheduler \<times> Individual" where
  "evaluated s ind =
     (case outcome (evaluate_individual s ind) of
        Inl e \<Rightarrow> Inl e
      | Inr f \<Rightarrow> Inr (scheduler_after (evaluate_individual s ind),
                      individual_after (evaluate_individual s ind)))"

text \<open>\<^verbatim>\<open>min(tournament, key=lambda x: x.fitness)\<close>: the first individual of least
  fitness.\<close>

fun first_best :: "Individual list \<Rightarrow> Individual \<Rightarrow> Individual" where
  "first_best [] best = best"
| "first_best (x # rest) best = first_best rest (if fitness x < fitness best then x else best)"

text \<open>\<^verbatim>\<open>tournament_selection\<close>; \<open>idxs\<close> are the positions that
  \<^verbatim>\<open>random.sample(population, min(3, len(population)))\<close> picks.\<close>

definition tournament_selection :: "Individual list \<Rightarrow> nat list \<Rightarrow> error + Individual" where
  "tournament_selection population idxs =
     (if list_all (\<lambda>i. i < length population) idxs
      then (case map (\<lambda>i. population ! i) idxs of
              [] \<Rightarrow> Inl ValueError
            | x # rest \<Rightarrow> Inr (first_best rest x))
      else Inl IndexError)"

text \<open>The draws of the crossover operators.\<close>

record crossover_draws =
  order_sample :: "nat \<times> nat"
  coin_machines :: "nat \<Rightarrow> bool"
  coin_sequence :: "nat \<Rightarrow> bool"
  pbx_positions :: "nat list"

text \<open>\<^verbatim>\<open>adaptive_crossover\<close>; the similarity and the generation ratio are floats in
  the source and rationals here.\<close>

definition adaptive_crossover ::
  "crossover_draws \<Rightarrow> Scheduler \<Rightarrow> nat \<Rightarrow> Individual \<Rightarrow> Individual \<Rightarrow> error + Individual \<times> Individual" where
  "adaptive_crossover c s current_generation parent1 parent2 =
     (if \<not> use_adaptive_crossover s
      then order_crossover (order_sample c) (coin_machines c) parent1 parent2
      else bind_err (calculate_similarity parent1 parent2) (\<lambda>similarity.
           if generations s = 0 then Inl ZeroDivisionError
           else
             let generation_ratio = (of_nat current_generation :: rat) / of_int (generations s) in
             if similarity > 7 / 10 \<or> generation_ratio > 8 / 10
             then uniform_crossover (coin_machines c) (coin_sequence c) parent1 parent2
             else if similarity < 3 / 10
             then order_crossover (order_sample c) (coin_machines c) parent1 parent2
             else position_based_crossover (pbx_positions c) parent1 parent2))"

text \<open>The draws of one iteration of the offspring loop.\<close>

record offspring_draws =
  tournament1 :: "nat list"
  tournament2 :: "nat list"
  do_crossover :: bool
  crossover :: crossover_draws
  mutation1 :: mutation_draws
  mutation2 :: mutation_draws
  do_vns1 :: bool
  do_vns2 :: bool
  vns1 :: vns_draws
  vns2 :: vns_draws

text \<open>One iteration of \<^verbatim>\<open>while len(new_population) < self.population_size\<close>:
  selection, crossover or copies of the parents, mutation, the occasional search on a
  child, and the evaluation of both children.  \<open>filled\<close> is \<^verbatim>\<open>len(new_population)\<close>.\<close>

definition make_children ::
  "offspring_draws \<Rightarrow> Scheduler \<Rightarrow> nat \<Rightarrow> Individual list \<Rightarrow> nat
     \<Rightarrow> error + Scheduler \<times> Individual \<times> Individual" where
  "make_children d s generation population filled =
     bind_err (tournament_selection population (tournament1 d)) (\<lambda>parent1.
     bind_err (tournament_selection population (tournament2 d)) (\<lambda>parent2.
     bind_err (if do_crossover d
               then (if use_adaptive_crossover s
                     then adaptive_crossover (crossover d) s generation parent1 parent2
                     else order_crossover (order_sample (crossover d)) (coin_machines (crossover d))
                            parent1 parent2)
               else Inr (parent1, parent2)) (\<lambda>children.
     bind_err (mutate_individual s (mutation1 d) (fst children)) (\<lambda>child1.
     bind_err (mutate_individual s (mutation2 d) (snd children)) (\<lambda>child2.
     bind_err (if int filled < population_size s div 6 \<and> do_vns1 d
               then variable_neighborhood_search (vns1 d) s child1
               else Inr (s, child1)) (\<lambda>r1.
     bind_err (if int filled < population_size s div 6 \<and> do_vns2 d
               then variable_neighborhood_search (vns2 d) (fst r1) child2
               else Inr (fst r1, child2)) (\<lambda>r2.
     bind_err (evaluated (fst r2) (snd r1)) (\<lambda>e1.
     bind_err (evaluated (fst e1) (snd r2)) (\<lambda>e2.
     Inr (fst e2, snd e1, snd e2))))))))))"

text \<open>The offspring loop.  \<open>ps\<close> is \<^verbatim>\<open>self.population_size\<close>, which nothing in the
  search assigns; \<open>draws k\<close> are the draws of the iteration entered with
  \<open>k\<close> individuals in \<open>new_population\<close>.\<close>

function offspring_loop ::
  "(nat \<Rightarrow> offspring_draws) \<Rightarrow> int \<Rightarrow> nat \<Rightarrow> Individual list \<Rightarrow> Scheduler \<Rightarrow> Individual list
     \<Rightarrow> error + Scheduler \<times> Individual list" where
  "offspring_loop draws ps generation population s new_population =
     (if int (length new_population) < ps
      then (case make_children (draws (length new_population)) s generation population
                   (length new_population) of
              Inl e \<Rightarrow> Inl e
            | Inr r \<Rightarrow> offspring_loop draws ps generation population (fst r)
                        (new_population @ [fst (snd r), snd (snd r)]))
      else Inr (s, new_population))"
  by pat_completeness auto
termination
  by (relation "measure (\<lambda>(draws, ps, generation, population, s, new_population).
                  nat (ps - int (length new_population)))") auto

text \<open>The search on the first elite individuals: an improved individual replaces the
  copy of its elite in \<open>new_population\<close>.\<close>

fun elite_vns_loop ::
  "(nat \<Rightarrow> vns_draws) \<Rightarrow> Individual list \<Rightarrow> nat list \<Rightarrow> Scheduler \<times> Individual list
     \<Rightarrow> error + Scheduler \<times> Individual list" where
  "elite_vns_loop draws elite [] acc = Inr acc"
| "elite_vns_loop draws elite (i # rest) acc =
     (case variable_neighborhood_search (draws i) (fst acc) (elite ! i) of
        Inl e \<Rightarrow> Inl e
      | Inr r \<Rightarrow>
          elite_vns_loop draws elite rest
            (fst r, if fitness (snd r) < fitness (elite ! i) then (snd acc)[i := snd r] else snd acc))"

text \<open>\<^verbatim>\<open>xs[:k]\<close> for an integer \<open>k\<close>; a negative \<open>k\<close> counts from the end.\<close>

definition py_prefix :: "'a list \<Rightarrow> int \<Rightarrow> 'a list" where
  "py_prefix xs k = (if 0 \<le> k then take (nat k) xs else take (length xs - nat (- k)) xs)"

text \<open>The draws of the whole search, by generation.\<close>

record ga_draws =
  elite_draws :: "nat \<Rightarrow> nat \<Rightarrow> vns_draws"
  child_draws :: "nat \<Rightarrow> nat \<Rightarrow> offspring_draws"

text \<open>\<^verbatim>\<open>max(1, int(self.population_size * elite_ratio))\<close> with the ratio 0.2 in the
  first half of the generations and 0.3 afterwards.\<close>

definition elite_count :: "Scheduler \<Rightarrow> nat \<Rightarrow> nat" where
  "elite_count s generation =
     (if int generation < generations s div 2
      then max 1 (nat (population_size s) * 2 div 10)
      else max 1 (nat (population_size s) * 3 div 10))"

text \<open>The body of \<^verbatim>\<open>for generation in range(self.generations)\<close>.  The parameter
  adjustment at its head changes rates only, and the rates only decide how likely a
  draw is.  Reading \<^verbatim>\<open>population[0].fitness\<close> at the end raises on an empty population.\<close>

definition generation_step ::
  "ga_draws \<Rightarrow> nat \<Rightarrow> Scheduler \<times> Individual list \<Rightarrow> error + Scheduler \<times> Individual list" where
  "generation_step g generation sp =
     (let s = fst sp; population = snd sp;
          elite = take (elite_count s generation) population
      in bind_err (if generation mod 20 = 0
                   then elite_vns_loop (elite_draws g generation) elite
                          [0..<min 2 (length elite)] (s, elite)
                   else Inr (s, elite)) (\<lambda>r1.
         bind_err (offspring_loop (child_draws g generation) (population_size s) generation
                     population (fst r1) (snd r1)) (\<lambda>r2.
         let new_population = sort_key fitness (py_prefix (snd r2) (population_size s))
         in if new_population = [] then Inl IndexError else Inr (fst r2, new_population))))"

fun ga_generations ::
  "ga_draws \<Rightarrow> nat list \<Rightarrow> Scheduler \<times> Individual list \<Rightarrow> error + Scheduler \<times> Individual list" where
  "ga_generations g [] sp = Inr sp"
| "ga_generations g (generation # rest) sp =
     (case generation_step g generation sp of
        Inl e \<Rightarrow> Inl e
      | Inr sp' \<Rightarrow> ga_generations g rest sp')"

text \<open>The population after the first \<open>t\<close> generations of the search that starts from
  the evaluated seeds \<open>seeded\<close>: it is sorted by fitness, and
  \<^verbatim>\<open>best_ever_fitness = population[0].fitness\<close> raises when it is empty.\<close>

definition population_after :: "ga_draws \<Rightarrow> Scheduler \<Rightarrow> Individual list \<Rightarrow> nat \<Rightarrow> error + Scheduler \<times> Individual list" where
  "population_after g s seeded t =
     (let population = sort_key fitness seeded in
      if population = [] then Inl IndexError
      else ga_generations g [0..<t] (s, population))"

text \<open>The search of \<^verbatim>\<open>genetic_algorithm\<close> from the evaluated seeds to
  \<^verbatim>\<open>return population[0]\<close>.\<close>

definition ga_search :: "ga_draws \<Rightarrow> Scheduler \<Rightarrow> Individual list \<Rightarrow> error + Scheduler \<times> Individual" where
  "ga_search g s seeded =
     bind_err (population_after g s seeded (nat (generations s))) (\<lambda>sp.
     case snd sp of [] \<Rightarrow> Inl IndexError | best # rest \<Rightarrow> Inr (fst sp, best))"

text \<open>The seeding of \<^verbatim>\<open>genetic_algorithm\<close>: every chromosome that a construction
  heuristic delivers is evaluated and appended to the population.  The heuristics
  themselves are not embedded; \<open>seeds\<close> is what they deliver, or the exception one of
  them raises.\<close>

fun evaluate_seeds :: "Scheduler \<Rightarrow> Individual list \<Rightarrow> error + Scheduler \<times> Individual list" where
  "evaluate_seeds s [] = Inr (s, [])"
| "evaluate_seeds s (c # rest) =
     (case evaluated s c of
        Inl e \<Rightarrow> Inl e
      | Inr r \<Rightarrow> (case evaluate_seeds (fst r) rest of
                    Inl e \<Rightarrow> Inl e
                  | Inr r' \<Rightarrow> Inr (fst r', snd r # snd r')))"

definition genetic_algorithm ::
  "ga_draws \<Rightarrow> error + Individual list \<Rightarrow> Scheduler \<Rightarrow> error + Scheduler \<times> Individual" where
  "genetic_algorithm g seeds s =
     bind_err seeds (\<lambda>chromosomes.
     bind_err (evaluate_seeds s chromosomes) (\<lambda>r.
     ga_search g (fst r) (snd r)))"

text \<open>The least fitness present in a population.\<close>

definition best_fitness :: "Individual list \<Rightarrow> fitness_val" where
  "best_fitness population = Min (fitness ` set population)"

text \<open>A small run for the examples: two seeds, a population of two, one generation;
  the parents are crossed and the children mutated by \<open>example_draws\<close>.\<close>

definition small_scheduler :: Scheduler where
  "small_scheduler = pants_scheduler\<lparr>population_size := 2, generations := 1\<rparr>"

definition example_offspring_draws :: offspring_draws where
  "example_offspring_draws =
     \<lparr>tournament1 = [0], tournament2 = [1, 0], do_crossover = True,
      crossover = \<lparr>order_sample = (4, 1), coin_machines = (\<lambda>i. even i),
                   coin_sequence = (\<lambda>i. even i), pbx_positions = [4, 1]\<rparr>,
      mutation1 = example_draws, mutation2 = example_draws,
      do_vns1 = False, do_vns2 = False,
      vns1 = example_vns_draws, vns2 = example_vns_draws\<rparr>"

definition example_ga_draws :: ga_draws where
  "example_ga_draws =
     \<lparr>elite_draws = (\<lambda>generation i. example_vns_draws),
      child_draws = (\<lambda>generation filled. example_offspring_draws)\<rparr>"

definition small_seeds :: "Individual list" where
  "small_seeds = [pants_in_order, pants_swapped]"

text \<open>The scheduler and the population after the evaluation of the two seeds.\<close>

definition small_seeded :: "Scheduler \<times> Individual list" where
  "small_seeded = projr (evaluate_seeds small_scheduler small_seeds)"

section \<open>Building the problem model\<close>

text \<open>\<^verbatim>\<open>Order\<close> of fjsp_scheduler.py.\<close>

record Order =
  ord_job_name :: string
  ord_quantity :: int
  ord_user :: string
  ord_order_id :: string

text \<open>An operation of a job (the dict with the keys operation, machines and
  processing_times) and \<^verbatim>\<open>Job\<close>.\<close>

record operation =
  operation_name :: string
  operation_machines :: "string list"
  operation_times :: "(string \<times> int) list"

record Job =
  job_title :: string
  job_operations :: "operation list"

text \<open>\<^verbatim>\<open>self.job_operation_mapping\<close>\<close>

definition job_operation_mapping :: "(string \<times> string) list" where
  "job_operation_mapping =
     [(''pants'', ''Job1''), (''pant'', ''Job1''), (''shirt'', ''Job2''), (''curtain'', ''Job3''),
      (''towel'', ''Job4''), (''t-shirt'', ''Job5''), (''t-shirts'', ''Job5'')]"

text \<open>\<^verbatim>\<open>job_definitions\<close>: the five jobs have the same six operations.\<close>

definition operation_names :: "string list" where
  "operation_names =
     [''Fabric Inspection'', ''Cutting'', ''Sewing'', ''Dyeing'', ''Printing'', ''Quality Control'']"

definition job_definitions :: "(string \<times> string) list" where
  "job_definitions =
     [(''Job1'', ''Pants''), (''Job2'', ''Shirt''), (''Job3'', ''Curtain''), (''Job4'', ''Towel''),
      (''Job5'', ''T-shirt'')]"

subsection \<open>Strings\<close>

text \<open>\<^verbatim>\<open>s.lower()\<close> on ASCII letters.\<close>

definition lower_char :: "char \<Rightarrow> char" where
  "lower_char c =
     (if 65 \<le> (of_char c :: nat) \<and> (of_char c :: nat) \<le> 90 then char_of ((of_char c :: nat) + 32) else c)"

definition py_lower :: "string \<Rightarrow> string" where
  "py_lower s = map lower_char s"

text \<open>\<^verbatim>\<open>sep.join(parts)\<close>, and \<^verbatim>\<open>s.replace(old, new)\<close> for a non-empty \<open>old\<close>.\<close>

fun py_join :: "string \<Rightarrow> string list \<Rightarrow> string" where
  "py_join sep [] = []"
| "py_join sep [x] = x"
| "py_join sep (x # y # rest) = x @ sep @ py_join sep (y # rest)"

definition py_replace :: "string \<Rightarrow> string \<Rightarrow> string \<Rightarrow> string" where
  "py_replace s old new = py_join new (py_split s old)"

definition py_endswith :: "string \<Rightarrow> string \<Rightarrow> bool" where
  "py_endswith s ending =
     (length ending \<le> length s \<and> drop (length s - length ending) s = ending)"

subsection \<open>\<^verbatim>\<open>load_machine_environment\<close>\<close>

text \<open>\<^verbatim>\<open>d[k] = v\<close> on a dict kept in insertion order.\<close>

definition dict_put :: "('k \<times> 'v) list \<Rightarrow> 'k \<Rightarrow> 'v \<Rightarrow> ('k \<times> 'v) list" where
  "dict_put d k v =
     (if k \<in> fst ` set d then map (\<lambda>p. if fst p = k then (k, v) else p) d else d @ [(k, v)])"

text \<open>The loop \<^verbatim>\<open>for m in range(num_machines)\<close> over the integers \<open>parts\<close> of a line: it
  reads pairs of a machine number and a duration from position \<open>idx\<close> and stops at the
  first pair that is not complete.  It returns the new position and the times read.\<close>

fun parse_machines ::
  "int list \<Rightarrow> nat \<Rightarrow> nat \<Rightarrow> (string \<times> int) list \<Rightarrow> nat \<times> (string \<times> int) list" where
  "parse_machines parts idx 0 read = (idx, read)"
| "parse_machines parts idx (Suc m) read =
     (if idx + 1 < length parts
      then parse_machines parts (idx + 2) m
             (dict_put read (''M'' @ str_int (parts ! idx)) (parts ! (idx + 1)))
      else (idx, read))"

text \<open>The loop \<^verbatim>\<open>for op in range(num_operations)\<close>; \<open>ops\<close> are the operation numbers
  still to come.\<close>

fun parse_operations ::
  "int list \<Rightarrow> nat \<Rightarrow> nat list \<Rightarrow> (nat \<times> (string \<times> int) list) list
     \<Rightarrow> (nat \<times> (string \<times> int) list) list" where
  "parse_operations parts idx [] table = table"
| "parse_operations parts idx (op # ops) table =
     (if idx \<ge> length parts then table
      else let r = parse_machines parts (idx + 1) (nat (parts ! idx)) []
           in parse_operations parts (fst r) ops (dict_put table op (snd r)))"

text \<open>A line of the file is the list of its integers, or \<open>None\<close> when one of its
  words is not an integer, so that \<^verbatim>\<open>map(int, ...)\<close> raises ValueError.\<close>

definition parse_line :: "int list option list \<Rightarrow> nat \<Rightarrow> error + int list" where
  "parse_line lines i =
     (if i < length lines
      then (case lines ! i of None \<Rightarrow> Inl ValueError | Some parts \<Rightarrow> Inr parts)
      else Inl IndexError)"

text \<open>One round of the loop \<^verbatim>\<open>for i in range(num_jobs)\<close>.  A line beyond the file
  is skipped; the line of a job that has no definition is converted and ignored.\<close>

definition parse_job ::
  "int list option list \<Rightarrow> nat \<Rightarrow> (string \<times> (nat \<times> (string \<times> int) list) list) list
     \<Rightarrow> error + (string \<times> (nat \<times> (string \<times> int) list) list) list" where
  "parse_job lines i table =
     (if i + 1 < length lines
      then bind_err (parse_line lines (i + 1)) (\<lambda>parts.
           let job_id = ''Job'' @ str_nat (i + 1) in
           if job_id \<in> fst ` set job_definitions
           then bind_err (py_get parts 0) (\<lambda>num_operations.
                Inr (dict_put table job_id
                       (parse_operations parts 1 [0..<nat num_operations] [])))
           else Inr table)
      else Inr table)"

fun parse_jobs ::
  "int list option list \<Rightarrow> nat list \<Rightarrow> (string \<times> (nat \<times> (string \<times> int) list) list) list
     \<Rightarrow> error + (string \<times> (nat \<times> (string \<times> int) list) list) list" where
  "parse_jobs lines [] table = Inr table"
| "parse_jobs lines (i # rest) table =
     (case parse_job lines i table of
        Inl e \<Rightarrow> Inl e
      | Inr table' \<Rightarrow> parse_jobs lines rest table')"

text \<open>The body of the \<^verbatim>\<open>try\<close>; \<open>None\<close> is a file that cannot be opened.\<close>

definition parse_environment ::
  "int list option list option \<Rightarrow> error + (string \<times> (nat \<times> (string \<times> int) list) list) list" where
  "parse_environment file =
     (case file of
        None \<Rightarrow> Inl OSError
      | Some lines \<Rightarrow>
          bind_err (parse_line lines 0) (\<lambda>first_line.
          bind_err (py_get first_line 0) (\<lambda>num_jobs.
          bind_err (py_get first_line 1) (\<lambda>total_machines.
          parse_jobs lines [0..<nat num_jobs] []))))"

text \<open>The \<^verbatim>\<open>except\<close> branch: the default times for every job.\<close>

definition default_table :: "(string \<times> (nat \<times> (string \<times> int) list) list) list" where
  "default_table =
     map (\<lambda>jd. (fst jd, map (\<lambda>op_idx. (op_idx, default_processing_times op_idx)) [0..<6]))
       job_definitions"

definition table_get :: "(string \<times> (nat \<times> (string \<times> int) list) list) list \<Rightarrow> string \<Rightarrow> nat
    \<Rightarrow> (string \<times> int) list" where
  "table_get table job_id i =
     (case map_of table job_id of
        None \<Rightarrow> []
      | Some ops \<Rightarrow> (case map_of ops i of None \<Rightarrow> [] | Some ts \<Rightarrow> ts))"

text \<open>\<^verbatim>\<open>load_machine_environment\<close> returns the jobs, by job id.  It cannot raise:
  every exception of the parse is caught.\<close>

definition load_machine_environment :: "int list option list option \<Rightarrow> (string \<times> Job) list" where
  "load_machine_environment file =
     (let processing = (case parse_environment file of Inl e \<Rightarrow> default_table | Inr table \<Rightarrow> table)
      in map (\<lambda>jd. (fst jd,
                \<lparr>job_title = snd jd,
                 job_operations =
                   map (\<lambda>i. \<lparr>operation_name = operation_names ! i,
                              operation_machines = job_machines ! i,
                              operation_times = table_get processing (fst jd) i\<rparr>) [0..<6]\<rparr>))
           job_definitions)"

text \<open>The keys of \<^verbatim>\<open>self.machines\<close>.  They come from a Python set, whose order is
  arbitrary; the model takes the order of first occurrence.\<close>

definition machine_ids :: "(string \<times> Job) list \<Rightarrow> string list" where
  "machine_ids jobs =
     remdups (concat (map (\<lambda>j. concat (map operation_machines (job_operations (snd j)))) jobs))"

subsection \<open>\<^verbatim>\<open>load_user_orders\<close>\<close>

text \<open>An entry of an order file: the product, when the key is present, and what
  \<^verbatim>\<open>int(order_data.get('quantity', 0))\<close> makes of the quantity.\<close>

datatype quantity_field = NoQuantity | Quantity int | BadQuantity

record order_data =
  od_product :: "string option"
  od_quantity :: quantity_field

definition quantity_of :: "order_data \<Rightarrow> error + int" where
  "quantity_of od =
     (case od_quantity od of NoQuantity \<Rightarrow> Inr 0 | Quantity q \<Rightarrow> Inr q | BadQuantity \<Rightarrow> Inl ValueError)"

text \<open>The loop over the entries of one file.  An entry whose product is not a key of
  the mapping adds no order.\<close>

fun orders_of_file :: "string \<Rightarrow> string \<Rightarrow> order_data list \<Rightarrow> error + Order list" where
  "orders_of_file username timestamp [] = Inr []"
| "orders_of_file username timestamp (od # rest) =
     (let product = py_lower (case od_product od of None \<Rightarrow> [] | Some p \<Rightarrow> p) in
      case quantity_of od of
        Inl e \<Rightarrow> Inl e
      | Inr qty \<Rightarrow>
          (case orders_of_file username timestamp rest of
             Inl e \<Rightarrow> Inl e
           | Inr orders \<Rightarrow>
               (case map_of job_operation_mapping product of
                  None \<Rightarrow> Inr orders
                | Some job \<Rightarrow>
                    Inr (\<lparr>ord_job_name = job, ord_quantity = qty, ord_user = username,
                          ord_order_id = username @ ''_'' @ timestamp @ ''_'' @ product\<rparr>
                         # orders))))"

text \<open>The loop over the directory: a file is its name and its parsed content, or the
  exception that opening or parsing it raises.\<close>

fun load_user_orders :: "(string \<times> (error + order_data list)) list \<Rightarrow> error + Order list" where
  "load_user_orders [] = Inr []"
| "load_user_orders (f # rest) =
     (if py_endswith (fst f) ''.json''
      then (let username = hd (py_split (fst f) ''_'');
                timestamp = py_replace (py_replace (fst f) ''.json'' []) (username @ ''_'') []
            in case bind_err (snd f) (orders_of_file username timestamp) of
                 Inl e \<Rightarrow> Inl e
               | Inr orders \<Rightarrow>
                   (case load_user_orders rest of
                      Inl e \<Rightarrow> Inl e
                    | Inr others \<Rightarrow> Inr (orders @ others)))
      else load_user_orders rest)"

subsection \<open>\<^verbatim>\<open>prepare_problem_data\<close>\<close>

text \<open>The tasks of one unit of an order, numbered from \<open>first_id\<close>.\<close>

definition unit_operations :: "Order \<Rightarrow> Job \<Rightarrow> nat \<Rightarrow> nat \<Rightarrow> op_info list" where
  "unit_operations order job unit first_id =
     map (\<lambda>op_idx.
            \<lparr>op_task = \<lparr>order_id = ord_order_id order, job_name = ord_job_name order,
                        operation_idx = int op_idx,
                        task_id = ord_order_id order @ ''_unit'' @ str_nat unit @ ''_op'' @ str_nat op_idx,
                        quantity = 1\<rparr>,
             op_machines = operation_machines (job_operations job ! op_idx),
             processing_times = operation_times (job_operations job ! op_idx),
             operation_id = int (first_id + op_idx)\<rparr>)
         [0..<length (job_operations job)]"

text \<open>The eligible machines of an operation: the positions, in the keys of
  \<^verbatim>\<open>self.machines\<close>, of its machines that have a processing time.\<close>

definition eligible_machines :: "string list \<Rightarrow> op_info \<Rightarrow> error + int list" where
  "eligible_machines ms info =
     mapM_err (\<lambda>m. bind_err (py_index ms m) (\<lambda>i. Inr (int i)))
       (filter (\<lambda>m. m \<in> fst ` set (processing_times info)) (op_machines info))"

fun order_operations :: "(string \<times> Job) list \<Rightarrow> Order list \<Rightarrow> nat \<Rightarrow> error + op_info list" where
  "order_operations jobs [] first_id = Inr []"
| "order_operations jobs (order # rest) first_id =
     (case map_of jobs (ord_job_name order) of
        None \<Rightarrow> Inl KeyError
      | Some job \<Rightarrow>
          let ops = concat (map (\<lambda>unit. unit_operations order job unit
                                          (first_id + unit * length (job_operations job)))
                              [0..<nat (ord_quantity order)])
          in case order_operations jobs rest (first_id + length ops) of
               Inl e \<Rightarrow> Inl e
             | Inr others \<Rightarrow> Inr (ops @ others))"

text \<open>\<open>cfg\<close> is the scheduler as \<^verbatim>\<open>__init__\<close> and the caller have configured it.\<close>

definition prepare_problem_data ::
  "Scheduler \<Rightarrow> (string \<times> Job) list \<Rightarrow> Order list \<Rightarrow> error + Scheduler" where
  "prepare_problem_data cfg jobs orders =
     bind_err (order_operations jobs orders 0) (\<lambda>ops.
     bind_err (mapM_err (eligible_machines (machine_ids jobs)) ops) (\<lambda>eligible.
     Inr (cfg\<lparr>machines := machine_ids jobs, all_operations := ops,
               operation_to_machines := eligible\<rparr>)))"

text \<open>The first three calls of \<^verbatim>\<open>run_scheduling\<close>.\<close>

definition build_problem ::
  "Scheduler \<Rightarrow> int list option list option \<Rightarrow> (string \<times> (error + order_data list)) list
     \<Rightarrow> error + Order list \<times> Scheduler" where
  "build_problem cfg file files =
     (let jobs = load_machine_environment file in
      bind_err (load_user_orders files) (\<lambda>orders.
      bind_err (prepare_problem_data cfg jobs orders) (\<lambda>s.
      Inr (orders, s))))"

section \<open>\<^verbatim>\<open>run_scheduling\<close>\<close>

text \<open>The result dict, with the keys the callers read: the error, the tasks, the
  machines, the makespan and the counts of the summary.  The per-order completion
  report is presentation and is left out.\<close>

datatype error_report = NoOperationsToSchedule | ExceptionMessage error

record task_data =
  td_machine :: string
  td_job :: string
  td_order_id :: string
  td_operation :: int
  td_start_time :: int
  td_end_time :: int
  td_duration :: int
  td_task_id :: string

record summary =
  total_orders :: nat
  total_tasks :: nat
  total_machines :: nat

record schedule_result =
  res_error :: "error_report option"
  res_tasks :: "task_data list"
  res_machines :: "string list"
  res_makespan :: int
  res_summary :: "summary option"

text \<open>The dict both error exits return.\<close>

definition error_result :: "error_report \<Rightarrow> schedule_result" where
  "error_result r =
     \<lparr>res_error = Some r, res_tasks = [], res_machines = [], res_makespan = 0, res_summary = None\<rparr>"

text \<open>\<^verbatim>\<open>get_schedule_data\<close>; \<^verbatim>\<open>int(float('inf'))\<close> raises OverflowError.\<close>

definition get_schedule_data :: "Scheduler \<Rightarrow> Order list \<Rightarrow> Individual \<Rightarrow> error + schedule_result" where
  "get_schedule_data s orders best_individual =
     (case actual_makespan best_individual of
        PosInf \<Rightarrow> Inl OverflowError
      | Fin m \<Rightarrow>
          Inr \<lparr>res_error = None,
               res_tasks = map (\<lambda>x. \<lparr>td_machine = machine_id x, td_job = job_name (task x),
                                      td_order_id = order_id (task x),
                                      td_operation = operation_idx (task x) + 1,
                                      td_start_time = start_time x, td_end_time = end_time x,
                                      td_duration = processing_time x,
                                      td_task_id = task_id (task x)\<rparr>)
                             (schedule best_individual),
               res_machines = machines s,
               res_makespan = m,
               res_summary = Some \<lparr>total_orders = length orders,
                                    total_tasks = length (schedule best_individual),
                                    total_machines = length (machines s)\<rparr>\<rparr>)"

text \<open>The body of the \<^verbatim>\<open>try\<close> of \<^verbatim>\<open>run_scheduling\<close>.  \<open>seeds\<close> stands for the
  construction heuristics, which see the prepared problem.\<close>

definition run_scheduling_body ::
  "Scheduler \<Rightarrow> int list option list option \<Rightarrow> (string \<times> (error + order_data list)) list
     \<Rightarrow> ga_draws \<Rightarrow> (Scheduler \<Rightarrow> error + Individual list) \<Rightarrow> error + schedule_result" where
  "run_scheduling_body cfg file files g seeds =
     bind_err (build_problem cfg file files) (\<lambda>p.
     if all_operations (snd p) = [] then Inr (error_result NoOperationsToSchedule)
     else bind_err (genetic_algorithm g (seeds (snd p)) (snd p)) (\<lambda>r.
          get_schedule_data (fst r) (fst p) (snd r)))"

text \<open>\<^verbatim>\<open>except Exception as e\<close>: every exception of the body becomes a result.\<close>

definition run_scheduling ::
  "Scheduler \<Rightarrow> int list option list option \<Rightarrow> (string \<times> (error + order_data list)) list
     \<Rightarrow> ga_draws \<Rightarrow> (Scheduler \<Rightarrow> error + Individual list) \<Rightarrow> schedule_result" where
  "run_scheduling cfg file files g seeds =
     (case run_scheduling_body cfg file files g seeds of
        Inl e \<Rightarrow> error_result (ExceptionMessage e)
      | Inr result \<Rightarrow> result)"

section \<open>Example inputs of the loaders\<close>

text \<open>A table of one job with one operation that declares two machines: machine 1
  with the duration 12, and machine 2 with no duration.\<close>

definition incomplete_environment :: "int list option list option" where
  "incomplete_environment = Some [Some [1, 18], Some [1, 2, 1, 12, 2]]"

definition socks :: order_data where
  "socks = \<lparr>od_product = Some ''Socks'', od_quantity = Quantity 3\<rparr>"

definition pants :: order_data where
  "pants = \<lparr>od_product = Some ''Pants'', od_quantity = Quantity 1\<rparr>"

definition socks_and_pants :: "(string \<times> (error + order_data list)) list" where
  "socks_and_pants = [(''a_1.json'', Inr [socks, pants])]"

definition unreadable_quantity :: "(string \<times> (error + order_data list)) list" where
  "unreadable_quantity =
     [(''b_2.json'', Inr [\<lparr>od_product = Some ''pants'', od_quantity = BadQuantity\<rparr>])]"

text \<open>Construction heuristics that return the two example seeds, and ones that
  raise.\<close>

definition example_heuristics :: "Scheduler \<Rightarrow> error + Individual list" where
  "example_heuristics s = Inr small_seeds"

definition failing_heuristics :: "Scheduler \<Rightarrow> error + Individual list" where
  "failing_heuristics s = Inl IndexError"

section \<open>Basic facts\<close>

lemma bind_err_Inr [simp]: "bind_err (Inr x) f = f x"
  by (simp add: bind_err_def)

lemma bind_err_Inl [simp]: "bind_err (Inl e) f = Inl e"
  by (simp add: bind_err_def)

lemma bind_err_eq_Inr: "bind_err m f = Inr y \<longleftrightarrow> (\<exists>x. m = Inr x \<and> f x = Inr y)"
  by (cases m) simp_all

lemma py_get_nat: "0 \<le> i \<Longrightarrow> nat i < length xs \<Longrightarrow> py_get xs i = Inr (xs ! nat i)"
  by (simp add: py_get_def)

lemma py_get_Inr_mem: "py_get xs i = Inr x \<Longrightarrow> x \<in> set xs"
  by (auto simp: py_get_def split: if_splits)

lemma unit_key_the_unit: "\<not> raises (unit_key t) \<Longrightarrow> unit_key t = Inr (the_unit t)"
  by (auto simp: raises_def the_unit_def split: sum.splits)

lemma dict_get_nonneg:
  assumes "\<forall>d \<in> snd ` set pts. 0 \<le> d" and "0 \<le> dflt"
  shows "0 \<le> dict_get pts k dflt"
proof (cases "map_of pts k")
  case None
  then show ?thesis using assms(2) by (simp add: dict_get_def)
next
  case (Some v)
  then have "(k, v) \<in> set pts" by (rule map_of_SomeD)
  then have "v \<in> snd ` set pts" by force
  with assms(1) have "0 \<le> v" by blast
  with Some show ?thesis by (simp add: dict_get_def)
qed

lemma schedule_task_fields:
  "available_time (fst (schedule_task m t d (Some start))) = max start (available_time m) + d"
  "ms_machine_id (fst (schedule_task m t d (Some start))) = ms_machine_id m"
  "machine_id (snd (schedule_task m t d (Some start))) = ms_machine_id m"
  "start_time (snd (schedule_task m t d (Some start))) = max start (available_time m)"
  "end_time (snd (schedule_task m t d (Some start))) = max start (available_time m) + d"
  "processing_time (snd (schedule_task m t d (Some start))) = d"
  "task (snd (schedule_task m t d (Some start))) = t"
  by (simp_all add: schedule_task_def Let_def)

lemma makespan_of_Max: "makespan_of ts = spec_makespan ts"
proof (cases ts)
  case Nil
  then show ?thesis by (simp add: makespan_of_def spec_makespan_def)
next
  case (Cons t rest)
  have "fold max (map end_time rest) (end_time t) = Max (set (end_time t # map end_time rest))"
    by (simp only: Max.set_eq_fold)
  with Cons show ?thesis by (simp add: makespan_of_def spec_makespan_def)
qed

lemma end_time_le_makespan: "x \<in> set ts \<Longrightarrow> end_time x \<le> makespan_of ts"
  by (auto simp: makespan_of_Max spec_makespan_def)


section \<open>The loop of the decoder refines the walk of the specification\<close>

lemma recorded_completion_snoc:
  "recorded_completion (sched @ [x]) k i =
     (if unit_key (task x) = Inr k \<and> operation_idx (task x) = i then end_time x
      else recorded_completion sched k i)"
  by (simp add: recorded_completion_def Let_def)

lemma state_rel_init: "state_rel s (init_decode_state s) (\<lambda>m. 0, [])"
  apply (simp add: state_rel_def init_decode_state_def recorded_completion_def)
  apply (intro ballI)
  apply (simp add: map_of_map_restrict new_MachineState_def)
  done

lemma decode_step_refines:
  assumes "op_in_range s ind op_id" and "state_rel s st cs"
  shows "\<exists>st'. decode_step s ind st op_id = Inr st' \<and> state_rel s st' (spec_step s ind cs op_id)"
proof -
  let ?info = "all_operations s ! nat op_id"
  let ?t = "op_task ?info"
  let ?mid = "machines s ! nat (machine_assignment ind ! nat op_id)"
  from assms(1) have r: "0 \<le> op_id" "nat op_id < length (all_operations s)"
    "nat op_id < length (machine_assignment ind)" "0 \<le> machine_assignment ind ! nat op_id"
    "nat (machine_assignment ind ! nat op_id) < length (machines s)"
    "\<not> raises (unit_key ?t)"
    by (simp_all add: op_in_range_def)
  have mem: "?mid \<in> set (machines s)" using r(5) by simp
  with assms(2) obtain ms where ms: "machine_states st ?mid = Some ms" "ms_machine_id ms = ?mid"
    "available_time ms = fst cs ?mid"
    by (auto simp: state_rel_def)
  have uk: "unit_key ?t = Inr (the_unit ?t)" using r(6) by (rule unit_key_the_unit)
  have juc: "\<And>k i. job_unit_completion st k i = recorded_completion (snd cs) k i"
    and sch: "ds_scheduled_tasks st = snd cs"
    using assms(2) by (simp_all add: state_rel_def)
  show ?thesis
    using r ms uk juc sch assms(2)
    by (simp add: decode_step_def py_get_nat Let_def lookup_state_def schedule_task_def
        spec_step_def state_rel_def recorded_completion_snoc)
qed

lemma decode_loop_refines:
  assumes "\<forall>op_id \<in> set ops. op_in_range s ind op_id" and "state_rel s st cs"
  shows "\<exists>st'. decode_loop s ind st ops = Inr st' \<and> state_rel s st' (foldl (spec_step s ind) cs ops)"
  using assms
proof (induction ops arbitrary: st cs)
  case Nil
  then show ?case by simp
next
  case (Cons op_id ops)
  from Cons.prems obtain st1 where st1: "decode_step s ind st op_id = Inr st1"
    "state_rel s st1 (spec_step s ind cs op_id)"
    using decode_step_refines[of s ind op_id st cs] by auto
  from Cons.IH[OF _ st1(2)] Cons.prems(1) st1(1) show ?case by simp
qed

lemma decode_refines:
  assumes "\<forall>op_id \<in> set (operation_sequence ind). op_in_range s ind op_id"
  shows "\<exists>st. decode_loop s ind (init_decode_state s) (operation_sequence ind) = Inr st \<and>
              state_rel s st (spec_decode s ind)"
  unfolding spec_decode_def using assms state_rel_init by (rule decode_loop_refines)


section \<open>The fields an evaluation writes\<close>

lemma evaluate_individual_fields:
  assumes "decode_loop s ind (init_decode_state s) (operation_sequence ind) = Inr st"
  shows "fitness (individual_after (evaluate_individual s ind)) = Fin (makespan_of (ds_scheduled_tasks st))"
    and "actual_makespan (individual_after (evaluate_individual s ind)) = Fin (makespan_of (ds_scheduled_tasks st))"
    and "machine_assignment (individual_after (evaluate_individual s ind)) = machine_assignment ind"
    and "operation_sequence (individual_after (evaluate_individual s ind)) = operation_sequence ind"
    and "outcome (evaluate_individual s ind) = Inr f \<Longrightarrow>
           f = Fin (makespan_of (ds_scheduled_tasks st)) \<and>
           schedule (individual_after (evaluate_individual s ind)) = ds_scheduled_tasks st"
    and "raises (outcome (evaluate_individual s ind)) \<Longrightarrow>
           schedule (individual_after (evaluate_individual s ind)) = schedule ind"
  using assms
  by (auto simp: evaluate_individual_def individual_after_def outcome_def Let_def raises_def
      split: sum.splits if_splits)

lemma evaluate_individual_decode_fails:
  assumes "decode_loop s ind (init_decode_state s) (operation_sequence ind) = Inl e"
  shows "evaluate_individual s ind = (Inl e, s, ind)"
  using assms by (simp add: evaluate_individual_def)


section \<open>Decoding reads only the problem data and the chromosome\<close>

lemma decode_step_cong:
  assumes "machines s' = machines s" and "all_operations s' = all_operations s"
    and "machine_assignment ind' = machine_assignment ind"
  shows "decode_step s' ind' st op_id = decode_step s ind st op_id"
  using assms by (simp add: decode_step_def)

lemma decode_loop_cong:
  assumes "machines s' = machines s" and "all_operations s' = all_operations s"
    and "machine_assignment ind' = machine_assignment ind"
  shows "decode_loop s' ind' st ops = decode_loop s ind st ops"
  by (induction ops arbitrary: st) (simp_all add: decode_step_cong[OF assms] split: sum.splits)

lemma init_decode_state_cong:
  "machines s' = machines s \<Longrightarrow> init_decode_state s' = init_decode_state s"
  by (simp add: init_decode_state_def)


lemma outcome_Inr_decode:
  assumes "outcome (evaluate_individual s ind) = Inr f"
  shows "\<exists>st. decode_loop s ind (init_decode_state s) (operation_sequence ind) = Inr st"
  using assms
  by (cases "decode_loop s ind (init_decode_state s) (operation_sequence ind)")
     (simp_all add: evaluate_individual_def outcome_def)


section \<open>Invariants of the decoding loop\<close>

lemma no_overlap_iff:
  "no_overlap sched \<longleftrightarrow>
     (\<forall>j i. j < length sched \<longrightarrow> i < j \<longrightarrow> machine_id (sched ! i) = machine_id (sched ! j) \<longrightarrow>
        end_time (sched ! i) \<le> start_time (sched ! j))"
  by (auto simp: no_overlap_def)

lemma cursor_inv_init: "cursor_inv (init_decode_state s)"
  by (auto simp: cursor_inv_def init_decode_state_def new_MachineState_def map_of_map_restrict
      restrict_map_def split: if_splits)

text \<open>What a successful iteration did: it scheduled one task on a machine that has a
  state, at a start no earlier than that machine's cursor.\<close>

lemma decode_stepE:
  assumes "decode_step s ind st op_id = Inr st'"
  obtains info mid m start k where
    "py_get (all_operations s) op_id = Inr info"
    "machine_states st mid = Some m"
    "available_time m \<le> start"
    "st' = st\<lparr>machine_states := (machine_states st)(mid \<mapsto>
                 fst (schedule_task m (op_task info) (dict_get (processing_times info) mid 10) (Some start))),
             ds_scheduled_tasks := ds_scheduled_tasks st @
                 [snd (schedule_task m (op_task info) (dict_get (processing_times info) mid 10) (Some start))],
             job_unit_completion := (job_unit_completion st)
                 (k := (job_unit_completion st k)
                    (operation_idx (op_task info) :=
                       end_time (snd (schedule_task m (op_task info) (dict_get (processing_times info) mid 10) (Some start)))))\<rparr>"
proof -
  from assms obtain info where 1: "py_get (all_operations s) op_id = Inr info"
    and a: "bind_err (py_get (machine_assignment ind) op_id) (\<lambda>machine_idx.
     bind_err (py_get (machines s) machine_idx) (\<lambda>mid.
     let ptime = dict_get (processing_times info) mid 10 in
     bind_err (lookup_state (machine_states st) mid) (\<lambda>m.
     let start0 = available_time m in
     bind_err (if operation_idx (op_task info) > 0
               then bind_err (unit_key (op_task info)) (\<lambda>k.
                      Inr (max start0 (job_unit_completion st k (operation_idx (op_task info) - 1))))
               else Inr start0) (\<lambda>start.
     let (m', scheduled_task) = schedule_task m (op_task info) ptime (Some start) in
     bind_err (unit_key (op_task info)) (\<lambda>k.
     Inr (st\<lparr>machine_states := (machine_states st)(mid \<mapsto> m'),
             ds_scheduled_tasks := ds_scheduled_tasks st @ [scheduled_task],
             job_unit_completion :=
               (job_unit_completion st)
                 (k := (job_unit_completion st k)
                         (operation_idx (op_task info) := end_time scheduled_task))\<rparr>)))))) = Inr st'"
    unfolding decode_step_def bind_err_eq_Inr Let_def by blast
  from a obtain machine_idx mid m where 2: "machine_states st mid = Some m"
    and b: "bind_err (if operation_idx (op_task info) > 0
               then bind_err (unit_key (op_task info)) (\<lambda>k.
                      Inr (max (available_time m) (job_unit_completion st k (operation_idx (op_task info) - 1))))
               else Inr (available_time m)) (\<lambda>start.
     let (m', scheduled_task) = schedule_task m (op_task info) (dict_get (processing_times info) mid 10) (Some start) in
     bind_err (unit_key (op_task info)) (\<lambda>k.
     Inr (st\<lparr>machine_states := (machine_states st)(mid \<mapsto> m'),
             ds_scheduled_tasks := ds_scheduled_tasks st @ [scheduled_task],
             job_unit_completion :=
               (job_unit_completion st)
                 (k := (job_unit_completion st k)
                         (operation_idx (op_task info) := end_time scheduled_task))\<rparr>))) = Inr st'"
    unfolding bind_err_eq_Inr Let_def lookup_state_def
    by (auto split: option.splits)
  let ?upd = "\<lambda>start k. st\<lparr>machine_states := (machine_states st)(mid \<mapsto>
                 fst (schedule_task m (op_task info) (dict_get (processing_times info) mid 10) (Some start))),
             ds_scheduled_tasks := ds_scheduled_tasks st @
                 [snd (schedule_task m (op_task info) (dict_get (processing_times info) mid 10) (Some start))],
             job_unit_completion := (job_unit_completion st)
                 (k := (job_unit_completion st k)
                    (operation_idx (op_task info) :=
                       end_time (snd (schedule_task m (op_task info) (dict_get (processing_times info) mid 10) (Some start)))))\<rparr>"
  have "\<exists>start k. available_time m \<le> start \<and> st' = ?upd start k"
  proof (cases "operation_idx (op_task info) > 0")
    case True
    with b obtain k0 k where "st' = ?upd (max (available_time m) (job_unit_completion st k0 (operation_idx (op_task info) - 1))) k"
      unfolding bind_err_eq_Inr Let_def split_beta by auto
    moreover have "available_time m \<le> max (available_time m) (job_unit_completion st k0 (operation_idx (op_task info) - 1))"
      by simp
    ultimately show ?thesis by blast
  next
    case False
    with b obtain k where "st' = ?upd (available_time m) k"
      unfolding bind_err_eq_Inr Let_def split_beta by auto
    then show ?thesis by blast
  qed
  then obtain start k where 3: "available_time m \<le> start" and 4: "st' = ?upd start k"
    by blast
  from 1 2 3 4 show thesis by (rule that)
qed

lemma decode_step_cursor_inv:
  assumes "decode_step s ind st op_id = Inr st'" and "cursor_inv st" and "nonneg_times s"
  shows "cursor_inv st'"
proof -
  from assms(1) obtain info mid m start k where
    info: "py_get (all_operations s) op_id = Inr info"
    and m: "machine_states st mid = Some m"
    and start: "available_time m \<le> start"
    and st': "st' = st\<lparr>machine_states := (machine_states st)(mid \<mapsto>
                 fst (schedule_task m (op_task info) (dict_get (processing_times info) mid 10) (Some start))),
             ds_scheduled_tasks := ds_scheduled_tasks st @
                 [snd (schedule_task m (op_task info) (dict_get (processing_times info) mid 10) (Some start))],
             job_unit_completion := (job_unit_completion st)
                 (k := (job_unit_completion st k)
                    (operation_idx (op_task info) :=
                       end_time (snd (schedule_task m (op_task info) (dict_get (processing_times info) mid 10) (Some start)))))\<rparr>"
    by (rule decode_stepE)
  from info have "info \<in> set (all_operations s)" by (rule py_get_Inr_mem)
  with assms(3) have d: "0 \<le> dict_get (processing_times info) mid 10"
    by (intro dict_get_nonneg) (auto simp: nonneg_times_def)
  from assms(2) m have mm: "ms_machine_id m = mid" by (simp add: cursor_inv_def)
  show ?thesis
    unfolding cursor_inv_def
  proof (intro allI impI)
    fix m' ms'
    assume a: "machine_states st' m' = Some ms'"
    show "ms_machine_id ms' = m' \<and>
        (\<forall>t \<in> set (ds_scheduled_tasks st'). machine_id t = m' \<longrightarrow> end_time t \<le> available_time ms')"
    proof (cases "m' = mid")
      case True
      with a st' have ms': "ms' = fst (schedule_task m (op_task info) (dict_get (processing_times info) mid 10) (Some start))"
        by simp
      have old: "\<forall>t \<in> set (ds_scheduled_tasks st). machine_id t = mid \<longrightarrow> end_time t \<le> available_time m"
        using assms(2) m by (simp add: cursor_inv_def)
      show ?thesis using True old d start mm
        by (auto simp: ms' st' schedule_task_fields)
    next
      case False
      with a st' have b: "machine_states st m' = Some ms'" by simp
      with assms(2) have old: "ms_machine_id ms' = m'"
        "\<forall>t \<in> set (ds_scheduled_tasks st). machine_id t = m' \<longrightarrow> end_time t \<le> available_time ms'"
        by (simp_all add: cursor_inv_def)
      show ?thesis using False old mm
        by (auto simp: st' schedule_task_fields)
    qed
  qed
qed

lemma decode_step_no_overlap:
  assumes "decode_step s ind st op_id = Inr st'" and "cursor_inv st"
    and "no_overlap (ds_scheduled_tasks st)"
  shows "no_overlap (ds_scheduled_tasks st')"
proof -
  from assms(1) obtain info mid m start k where
    info: "py_get (all_operations s) op_id = Inr info"
    and m: "machine_states st mid = Some m"
    and start: "available_time m \<le> start"
    and st': "st' = st\<lparr>machine_states := (machine_states st)(mid \<mapsto>
                 fst (schedule_task m (op_task info) (dict_get (processing_times info) mid 10) (Some start))),
             ds_scheduled_tasks := ds_scheduled_tasks st @
                 [snd (schedule_task m (op_task info) (dict_get (processing_times info) mid 10) (Some start))],
             job_unit_completion := (job_unit_completion st)
                 (k := (job_unit_completion st k)
                    (operation_idx (op_task info) :=
                       end_time (snd (schedule_task m (op_task info) (dict_get (processing_times info) mid 10) (Some start)))))\<rparr>"
    by (rule decode_stepE)
  let ?new = "snd (schedule_task m (op_task info) (dict_get (processing_times info) mid 10) (Some start))"
  let ?old = "ds_scheduled_tasks st"
  from assms(2) m have mm: "ms_machine_id m = mid"
    and old: "\<forall>t \<in> set ?old. machine_id t = mid \<longrightarrow> end_time t \<le> available_time m"
    by (simp_all add: cursor_inv_def)
  have sched: "ds_scheduled_tasks st' = ?old @ [?new]" by (simp add: st')
  have "end_time ((?old @ [?new]) ! i) \<le> start_time ((?old @ [?new]) ! j)"
    if j: "j < length (?old @ [?new])" and i: "i < j"
      and same: "machine_id ((?old @ [?new]) ! i) = machine_id ((?old @ [?new]) ! j)" for i j
  proof (cases "j < length ?old")
    case True
    with i same assms(3) show ?thesis
      by (simp add: no_overlap_iff nth_append)
  next
    case False
    with j have jl: "j = length ?old" by simp
    with i have il: "i < length ?old" by simp
    then have mem: "?old ! i \<in> set ?old" by simp
    from same jl il have "machine_id (?old ! i) = mid"
      by (simp add: nth_append schedule_task_fields mm)
    with old mem have "end_time (?old ! i) \<le> available_time m" by blast
    then show ?thesis using jl il start
      by (simp add: nth_append schedule_task_fields)
  qed
  then show ?thesis
    unfolding no_overlap_iff sched by blast
qed

lemma decode_step_cursor_mono:
  assumes "decode_step s ind st op_id = Inr st'" and "nonneg_times s"
    and "machine_states st m = Some ms"
  shows "\<exists>ms'. machine_states st' m = Some ms' \<and> available_time ms \<le> available_time ms'"
proof -
  from assms(1) obtain info mid m0 start k where
    info: "py_get (all_operations s) op_id = Inr info"
    and m: "machine_states st mid = Some m0"
    and start: "available_time m0 \<le> start"
    and st': "st' = st\<lparr>machine_states := (machine_states st)(mid \<mapsto>
                 fst (schedule_task m0 (op_task info) (dict_get (processing_times info) mid 10) (Some start))),
             ds_scheduled_tasks := ds_scheduled_tasks st @
                 [snd (schedule_task m0 (op_task info) (dict_get (processing_times info) mid 10) (Some start))],
             job_unit_completion := (job_unit_completion st)
                 (k := (job_unit_completion st k)
                    (operation_idx (op_task info) :=
                       end_time (snd (schedule_task m0 (op_task info) (dict_get (processing_times info) mid 10) (Some start)))))\<rparr>"
    by (rule decode_stepE)
  from info have "info \<in> set (all_operations s)" by (rule py_get_Inr_mem)
  with assms(2) have d: "0 \<le> dict_get (processing_times info) mid 10"
    by (intro dict_get_nonneg) (auto simp: nonneg_times_def)
  show ?thesis
  proof (cases "m = mid")
    case True
    with m assms(3) have "ms = m0" by simp
    with True d start show ?thesis by (simp add: st' schedule_task_fields)
  next
    case False
    with assms(3) show ?thesis by (simp add: st')
  qed
qed

lemma decode_loop_append:
  "decode_loop s ind st (xs @ ys) =
     (case decode_loop s ind st xs of Inl e \<Rightarrow> Inl e | Inr st1 \<Rightarrow> decode_loop s ind st1 ys)"
  by (induction xs arbitrary: st) (auto split: sum.splits)

lemma decode_loop_invs:
  assumes "decode_loop s ind st ops = Inr st'" and "nonneg_times s"
    and "cursor_inv st" and "no_overlap (ds_scheduled_tasks st)"
  shows "cursor_inv st' \<and> no_overlap (ds_scheduled_tasks st')"
  using assms
proof (induction ops arbitrary: st)
  case Nil
  then show ?case by simp
next
  case (Cons op_id ops)
  from Cons.prems(1) obtain st1 where 1: "decode_step s ind st op_id = Inr st1"
    and 2: "decode_loop s ind st1 ops = Inr st'"
    by (auto split: sum.splits)
  from 1 Cons.prems have "cursor_inv st1" "no_overlap (ds_scheduled_tasks st1)"
    by (blast intro: decode_step_cursor_inv decode_step_no_overlap)+
  with Cons.IH[OF 2 Cons.prems(2)] show ?case by blast
qed

lemma decode_loop_cursor_mono:
  assumes "decode_loop s ind st ops = Inr st'" and "nonneg_times s"
    and "machine_states st m = Some ms"
  shows "\<exists>ms'. machine_states st' m = Some ms' \<and> available_time ms \<le> available_time ms'"
  using assms
proof (induction ops arbitrary: st ms)
  case Nil
  then show ?case by simp
next
  case (Cons op_id ops)
  from Cons.prems(1) obtain st1 where 1: "decode_step s ind st op_id = Inr st1"
    and 2: "decode_loop s ind st1 ops = Inr st'"
    by (auto split: sum.splits)
  from decode_step_cursor_mono[OF 1 Cons.prems(2,3)] obtain ms1 where
    3: "machine_states st1 m = Some ms1" "available_time ms \<le> available_time ms1" by blast
  from Cons.IH[OF 2 Cons.prems(2) 3(1)] 3(2) show ?case by fastforce
qed

text \<open>C3.  With non-negative processing times, in every decoding pass that returns,
  two tasks on the same machine never overlap (the one decoded first ends before the
  other starts), in the loop's schedule and in the schedule stored in the individual;
  and the cursor \<open>available_time\<close> of a machine after \<open>j\<close> iterations is at least what it
  was after \<open>i \<le> j\<close> iterations.\<close>

theorem machine_exclusivity:
  assumes "nonneg_times s"
  shows "(\<forall>st. decode_loop s ind (init_decode_state s) (operation_sequence ind) = Inr st \<longrightarrow>
            no_overlap (ds_scheduled_tasks st)) \<and>
         (\<not> raises (outcome (evaluate_individual s ind)) \<longrightarrow>
            no_overlap (schedule (individual_after (evaluate_individual s ind)))) \<and>
         (\<forall>i j st1 st2 m ms1 ms2.
            i \<le> j \<and>
            decode_loop s ind (init_decode_state s) (take i (operation_sequence ind)) = Inr st1 \<and>
            decode_loop s ind (init_decode_state s) (take j (operation_sequence ind)) = Inr st2 \<and>
            machine_states st1 m = Some ms1 \<and> machine_states st2 m = Some ms2 \<longrightarrow>
            available_time ms1 \<le> available_time ms2)"
proof (intro conjI allI impI)
  fix st
  assume "decode_loop s ind (init_decode_state s) (operation_sequence ind) = Inr st"
  from decode_loop_invs[OF this assms cursor_inv_init]
  show "no_overlap (ds_scheduled_tasks st)"
    by (simp add: init_decode_state_def no_overlap_def)
next
  assume "\<not> raises (outcome (evaluate_individual s ind))"
  then obtain f where f: "outcome (evaluate_individual s ind) = Inr f"
    by (cases "outcome (evaluate_individual s ind)") (simp_all add: raises_def)
  then obtain st where st: "decode_loop s ind (init_decode_state s) (operation_sequence ind) = Inr st"
    using outcome_Inr_decode by blast
  from decode_loop_invs[OF st assms cursor_inv_init]
  have "no_overlap (ds_scheduled_tasks st)"
    by (simp add: init_decode_state_def no_overlap_def)
  with evaluate_individual_fields(5)[OF st f]
  show "no_overlap (schedule (individual_after (evaluate_individual s ind)))" by simp
next
  fix i j st1 st2 m ms1 ms2
  assume a: "i \<le> j \<and>
            decode_loop s ind (init_decode_state s) (take i (operation_sequence ind)) = Inr st1 \<and>
            decode_loop s ind (init_decode_state s) (take j (operation_sequence ind)) = Inr st2 \<and>
            machine_states st1 m = Some ms1 \<and> machine_states st2 m = Some ms2"
  let ?ops = "operation_sequence ind"
  from a have "take j ?ops = take i ?ops @ drop i (take j ?ops)"
    by (metis append_take_drop_id min.absorb1 take_take)
  with a have "decode_loop s ind st1 (drop i (take j ?ops)) = Inr st2"
    by (metis (no_types, lifting) decode_loop_append sum.simps(6))
  from decode_loop_cursor_mono[OF this assms] a
  show "available_time ms1 \<le> available_time ms2" by force
qed

theorem machine_exclusivity_witness:
  "nonneg_times pants_scheduler \<and>
   \<not> raises (outcome (evaluate_individual pants_scheduler pants_ineligible)) \<and>
   no_overlap (schedule (individual_after (evaluate_individual pants_scheduler pants_ineligible))) \<and>
   map (\<lambda>x. (machine_id x, start_time x, end_time x))
     (take 2 (schedule (individual_after (evaluate_individual pants_scheduler pants_ineligible)))) =
     [(''M5'', 0, 10), (''M5'', 10, 28)]"
proof -
  have h: "nonneg_times pants_scheduler" by code_simp
  have r: "\<not> raises (outcome (evaluate_individual pants_scheduler pants_ineligible))" by code_simp
  have v: "map (\<lambda>x. (machine_id x, start_time x, end_time x))
     (take 2 (schedule (individual_after (evaluate_individual pants_scheduler pants_ineligible)))) =
     [(''M5'', 0, 10), (''M5'', 10, 28)]" by code_simp
  from machine_exclusivity[OF h, of pants_ineligible] r
  have "no_overlap (schedule (individual_after (evaluate_individual pants_scheduler pants_ineligible)))"
    by blast
  with h r v show ?thesis by blast
qed
section \<open>The task decoded at a position of the sequence\<close>

lemma spec_step_snd:
  "\<exists>x. snd (spec_step s ind cs op_id) = snd cs @ [x] \<and>
       task x = op_task (all_operations s ! nat op_id) \<and>
       machine_id x = machines s ! nat (machine_assignment ind ! nat op_id) \<and>
       processing_time x = dict_get (processing_times (all_operations s ! nat op_id)) (machine_id x) 10 \<and>
       end_time x = start_time x + processing_time x"
  by (simp add: spec_step_def Let_def)

lemma spec_fold_prefix:
  "\<exists>rest. snd (foldl (spec_step s ind) cs ops) = snd cs @ rest \<and> length rest = length ops"
proof (induction ops arbitrary: cs)
  case Nil
  then show ?case by simp
next
  case (Cons op_id ops)
  obtain x where x: "snd (spec_step s ind cs op_id) = snd cs @ [x]"
    using spec_step_snd by blast
  from Cons.IH[of "spec_step s ind cs op_id"] obtain rest where
    "snd (foldl (spec_step s ind) (spec_step s ind cs op_id) ops) = snd (spec_step s ind cs op_id) @ rest"
    "length rest = length ops" by blast
  with x show ?case by simp
qed

lemma spec_fold_nth:
  assumes "k < length ops"
  shows "\<exists>x. snd (foldl (spec_step s ind) cs ops) ! (length (snd cs) + k) = x \<and>
       task x = op_task (all_operations s ! nat (ops ! k)) \<and>
       machine_id x = machines s ! nat (machine_assignment ind ! nat (ops ! k)) \<and>
       processing_time x = dict_get (processing_times (all_operations s ! nat (ops ! k))) (machine_id x) 10 \<and>
       end_time x = start_time x + processing_time x"
  using assms
proof (induction ops arbitrary: cs k)
  case Nil
  then show ?case by simp
next
  case (Cons op_id ops)
  obtain x where x: "snd (spec_step s ind cs op_id) = snd cs @ [x]"
    "task x = op_task (all_operations s ! nat op_id)"
    "machine_id x = machines s ! nat (machine_assignment ind ! nat op_id)"
    "processing_time x = dict_get (processing_times (all_operations s ! nat op_id)) (machine_id x) 10"
    "end_time x = start_time x + processing_time x"
    using spec_step_snd by blast
  show ?case
  proof (cases k)
    case 0
    obtain rest where "snd (foldl (spec_step s ind) (spec_step s ind cs op_id) ops) =
        snd (spec_step s ind cs op_id) @ rest"
      using spec_fold_prefix by blast
    with x(1) have "snd (foldl (spec_step s ind) cs (op_id # ops)) ! (length (snd cs) + k) = x"
      using 0 by (simp add: nth_append)
    with x 0 show ?thesis by simp
  next
    case (Suc k')
    with Cons.prems have "k' < length ops" by simp
    from Cons.IH[OF this, of "spec_step s ind cs op_id"] x(1) Suc
    show ?thesis by simp
  qed
qed

text \<open>C10.  When the machine assigned to a task has no entry in that task's
  processing-times table (and the indices the decoder reads are in range), the decoder
  still returns: the task at that position of the sequence is scheduled with the
  duration 10, its end is its start plus 10, and the fitness written to the individual
  is at least that end.\<close>

theorem missing_duration_defaults_to_10:
  assumes "sequence_in_range s ind"
    and "k < length (operation_sequence ind)"
    and "map_of (processing_times (all_operations s ! nat (operation_sequence ind ! k)))
           (machines s ! nat (machine_assignment ind ! nat (operation_sequence ind ! k))) = None"
  shows "\<exists>st x. decode_loop s ind (init_decode_state s) (operation_sequence ind) = Inr st \<and>
           x = ds_scheduled_tasks st ! k \<and>
           task x = op_task (all_operations s ! nat (operation_sequence ind ! k)) \<and>
           machine_id x = machines s ! nat (machine_assignment ind ! nat (operation_sequence ind ! k)) \<and>
           processing_time x = 10 \<and>
           end_time x = start_time x + 10 \<and>
           Fin (start_time x + 10) \<le> fitness (individual_after (evaluate_individual s ind)) \<and>
           (\<not> raises (outcome (evaluate_individual s ind)) \<longrightarrow>
              schedule (individual_after (evaluate_individual s ind)) ! k = x)"
proof -
  let ?ops = "operation_sequence ind"
  from assms(1) obtain st where st: "decode_loop s ind (init_decode_state s) ?ops = Inr st"
    and rel: "state_rel s st (spec_decode s ind)"
    using decode_refines unfolding sequence_in_range_def by blast
  from rel have sched: "ds_scheduled_tasks st = snd (foldl (spec_step s ind) (\<lambda>m. 0, []) ?ops)"
    by (simp add: state_rel_def spec_decode_def)
  from spec_fold_nth[OF assms(2), of s ind "(\<lambda>m. 0, [])"] sched
  have x: "task (ds_scheduled_tasks st ! k) = op_task (all_operations s ! nat (?ops ! k))"
    "machine_id (ds_scheduled_tasks st ! k) = machines s ! nat (machine_assignment ind ! nat (?ops ! k))"
    "processing_time (ds_scheduled_tasks st ! k) =
       dict_get (processing_times (all_operations s ! nat (?ops ! k))) (machine_id (ds_scheduled_tasks st ! k)) 10"
    "end_time (ds_scheduled_tasks st ! k) = start_time (ds_scheduled_tasks st ! k) + processing_time (ds_scheduled_tasks st ! k)"
    by simp_all
  from x(2,3) assms(3) have p: "processing_time (ds_scheduled_tasks st ! k) = 10"
    by (simp add: dict_get_def)
  obtain rest where "snd (foldl (spec_step s ind) (\<lambda>m. 0, []) ?ops) = rest" "length rest = length ?ops"
    using spec_fold_prefix[of s ind "(\<lambda>m. 0, [])" ?ops] by auto
  with sched assms(2) have "ds_scheduled_tasks st ! k \<in> set (ds_scheduled_tasks st)" by simp
  then have "end_time (ds_scheduled_tasks st ! k) \<le> makespan_of (ds_scheduled_tasks st)"
    by (rule end_time_le_makespan)
  with x(4) p evaluate_individual_fields(1)[OF st]
  have f: "Fin (start_time (ds_scheduled_tasks st ! k) + 10) \<le> fitness (individual_after (evaluate_individual s ind))"
    by simp
  have r: "\<not> raises (outcome (evaluate_individual s ind)) \<longrightarrow>
              schedule (individual_after (evaluate_individual s ind)) ! k = ds_scheduled_tasks st ! k"
  proof
    assume "\<not> raises (outcome (evaluate_individual s ind))"
    then obtain f where "outcome (evaluate_individual s ind) = Inr f"
      by (cases "outcome (evaluate_individual s ind)") (simp_all add: raises_def)
    from evaluate_individual_fields(5)[OF st this]
    show "schedule (individual_after (evaluate_individual s ind)) ! k = ds_scheduled_tasks st ! k" by simp
  qed
  from st x(1,2) p x(4) f r show ?thesis by auto
qed

theorem missing_duration_defaults_to_10_witness:
  "sequence_in_range pants_scheduler pants_ineligible \<and>
   0 < length (operation_sequence pants_ineligible) \<and>
   map_of (processing_times (all_operations pants_scheduler ! nat (operation_sequence pants_ineligible ! 0)))
     (machines pants_scheduler ! nat (machine_assignment pants_ineligible ! nat (operation_sequence pants_ineligible ! 0))) = None \<and>
   outcome (evaluate_individual pants_scheduler pants_ineligible) = Inr (Fin 118) \<and>
   processing_time (schedule (individual_after (evaluate_individual pants_scheduler pants_ineligible)) ! 0) = 10 \<and>
   end_time (schedule (individual_after (evaluate_individual pants_scheduler pants_ineligible)) ! 0) =
     start_time (schedule (individual_after (evaluate_individual pants_scheduler pants_ineligible)) ! 0) + 10"
proof -
  have a: "sequence_in_range pants_scheduler pants_ineligible"
    by code_simp
  have b: "0 < length (operation_sequence pants_ineligible)" by code_simp
  have c: "map_of (processing_times (all_operations pants_scheduler ! nat (operation_sequence pants_ineligible ! 0)))
     (machines pants_scheduler ! nat (machine_assignment pants_ineligible ! nat (operation_sequence pants_ineligible ! 0))) = None"
    by code_simp
  have d: "outcome (evaluate_individual pants_scheduler pants_ineligible) = Inr (Fin 118)" by code_simp
  then have e: "\<not> raises (outcome (evaluate_individual pants_scheduler pants_ineligible))"
    by (simp add: raises_def)
  from missing_duration_defaults_to_10[OF a b c] e
  have "processing_time (schedule (individual_after (evaluate_individual pants_scheduler pants_ineligible)) ! 0) = 10"
    and "end_time (schedule (individual_after (evaluate_individual pants_scheduler pants_ineligible)) ! 0) =
     start_time (schedule (individual_after (evaluate_individual pants_scheduler pants_ineligible)) ! 0) + 10"
    by auto
  with a b c d show ?thesis by blast
qed

text \<open>C1.  The decoder does not guarantee precedence for every valid chromosome.  In
  the problem of one pair of pants, the chromosome that lists task 1 (operation 1 of
  the unit) before task 0 (operation 0 of the same unit) is structurally valid and is
  decoded without error, to a makespan of 108; but operation 1 is scheduled at time 0
  on M5 while operation 0 runs from 0 to 12 on M1, so the successor starts before its
  predecessor has ended.\<close>

theorem precedence_violated_when_successor_decoded_first:
  "valid_problem pants_scheduler \<and> valid_chromosome pants_scheduler pants_swapped \<and>
   outcome (evaluate_individual pants_scheduler pants_swapped) = Inr (Fin 108) \<and>
   map (\<lambda>x. (operation_idx (task x), unit_key (task x), machine_id x, start_time x, end_time x))
     (take 2 (schedule (individual_after (evaluate_individual pants_scheduler pants_swapped)))) =
     [(1, Inr ''a_1_pants0'', ''M5'', 0, 18), (0, Inr ''a_1_pants0'', ''M1'', 0, 12)] \<and>
   \<not> precedence_ok (schedule (individual_after (evaluate_individual pants_scheduler pants_swapped)))"
  by code_simp

theorem precedence_violated_when_successor_decoded_first_witness:
  "\<not> precedence_ok (schedule (individual_after (evaluate_individual pants_scheduler pants_swapped)))"
  using precedence_violated_when_successor_decoded_first by blast
section \<open>Evaluating again\<close>

lemma not_raises_iff: "\<not> raises r \<longleftrightarrow> (\<exists>x. r = Inr x)"
  by (cases r) (simp_all add: raises_def)

lemma calculate_similarity_returns:
  assumes "length (machine_assignment ind1) \<le> length (machine_assignment ind2)"
    and "machine_assignment ind1 \<noteq> []" and "operation_sequence ind1 \<noteq> []"
  shows "\<not> raises (calculate_similarity ind1 ind2)"
  using assms by (simp add: calculate_similarity_def Let_def raises_def)

lemma is_diverse_returns:
  assumes "\<forall>a \<in> set archive. length (machine_assignment ind) \<le> length (machine_assignment a)"
    and "machine_assignment ind \<noteq> []" and "operation_sequence ind \<noteq> []"
  shows "\<not> raises (is_diverse thr ind archive)"
  using assms(1)
proof (induction archive)
  case Nil
  then show ?case by (simp add: raises_def)
next
  case (Cons a archive)
  then have "\<not> raises (calculate_similarity ind a)"
    using calculate_similarity_returns[of ind a] assms(2,3) by simp
  then obtain r where r: "calculate_similarity ind a = Inr r"
    unfolding not_raises_iff by blast
  from Cons have "\<not> raises (is_diverse thr ind archive)" by simp
  with r show ?case by (simp add: raises_def)
qed

lemma update_solution_archive_returns:
  assumes "\<forall>a \<in> set (solution_archive s). length (machine_assignment ind) \<le> length (machine_assignment a)"
    and "machine_assignment ind \<noteq> []" and "operation_sequence ind \<noteq> []"
  shows "\<exists>s'. update_solution_archive s ind = Inr s'"
proof -
  from is_diverse_returns[OF assms] obtain b where
    "is_diverse (diversity_threshold s) ind (solution_archive s) = Inr b"
    unfolding not_raises_iff by blast
  then show ?thesis by (cases b) (simp_all add: update_solution_archive_def Let_def)
qed

lemma update_solution_archive_problem_data:
  assumes "update_solution_archive s ind = Inr s'"
  shows "machines s' = machines s" and "all_operations s' = all_operations s"
  using assms
  by (auto simp: update_solution_archive_def Let_def split: sum.splits bool.splits)

lemma evaluate_returns:
  assumes "decode_loop s ind (init_decode_state s) (operation_sequence ind) = Inr st"
    and "archive_cannot_raise s ind"
  shows "\<not> raises (outcome (evaluate_individual s ind))"
proof (cases "use_archive_solutions s")
  case False
  with assms(1) show ?thesis
    by (simp add: evaluate_individual_def outcome_def raises_def Let_def)
next
  case True
  let ?ind1 = "ind\<lparr>fitness := Fin (makespan_of (ds_scheduled_tasks st)),
                      actual_makespan := Fin (makespan_of (ds_scheduled_tasks st))\<rparr>"
  from True assms(2) have
    "\<forall>a \<in> set (solution_archive s). length (machine_assignment ?ind1) \<le> length (machine_assignment a)"
    "machine_assignment ?ind1 \<noteq> []" "operation_sequence ?ind1 \<noteq> []"
    by (simp_all add: archive_cannot_raise_def)
  from update_solution_archive_returns[OF this] obtain s' where
    "update_solution_archive s ?ind1 = Inr s'" by blast
  with True assms(1) show ?thesis
    by (simp add: evaluate_individual_def outcome_def raises_def Let_def)
qed

text \<open>Evaluating the individual a call has left behind, in the scheduler that call
  has left behind, leaves the same individual behind.\<close>

lemma reevaluate_same_individual:
  "individual_after (evaluate_individual (scheduler_after (evaluate_individual s ind))
      (individual_after (evaluate_individual s ind))) = individual_after (evaluate_individual s ind)"
proof (cases "decode_loop s ind (init_decode_state s) (operation_sequence ind)")
  case (Inl e)
  then have "evaluate_individual s ind = (Inl e, s, ind)"
    by (rule evaluate_individual_decode_fails)
  then show ?thesis by (simp add: scheduler_after_def individual_after_def)
next
  case (Inr st)
  let ?m = "Fin (makespan_of (ds_scheduled_tasks st))"
  let ?ind1 = "ind\<lparr>fitness := ?m, actual_makespan := ?m\<rparr>"
  let ?arch = "\<lambda>s i. if use_archive_solutions s then update_solution_archive s i else Inr s"
  have dec: "decode_loop s' i (init_decode_state s') (operation_sequence i) = Inr st"
    if "machines s' = machines s" "all_operations s' = all_operations s"
      "machine_assignment i = machine_assignment ind" "operation_sequence i = operation_sequence ind"
    for s' i
    using that Inr decode_loop_cong[of s' s i ind] init_decode_state_cong[of s' s] by simp
  show ?thesis
  proof (cases "?arch s ?ind1")
    case e: (Inl e)
    with Inr have r1: "evaluate_individual s ind = (Inl e, s, ?ind1)"
      by (simp add: evaluate_individual_def Let_def)
    have "decode_loop s ?ind1 (init_decode_state s) (operation_sequence ?ind1) = Inr st"
      by (rule dec) simp_all
    with e have "evaluate_individual s ?ind1 = (Inl e, s, ?ind1)"
      by (simp add: evaluate_individual_def Let_def)
    with r1 show ?thesis by (simp add: scheduler_after_def individual_after_def)
  next
    case s': (Inr s')
    let ?i1 = "?ind1\<lparr>schedule := ds_scheduled_tasks st\<rparr>"
    from s' Inr have r1: "evaluate_individual s ind = (Inr ?m, s', ?i1)"
      by (simp add: evaluate_individual_def Let_def)
    from s' have pd: "machines s' = machines s" "all_operations s' = all_operations s"
      using update_solution_archive_problem_data[of s ?ind1 s']
      by (auto split: if_splits)
    have d2: "decode_loop s' ?i1 (init_decode_state s') (operation_sequence ?i1) = Inr st"
      by (rule dec) (simp_all add: pd)
    have "individual_after (evaluate_individual s' ?i1) = ?i1"
      using d2 by (simp add: evaluate_individual_def individual_after_def Let_def split: sum.splits)
    with r1 show ?thesis by (simp add: scheduler_after_def individual_after_def)
  qed
qed

text \<open>C6.  Decoding is deterministic: when an evaluation has returned the fitness \<open>f\<close>,
  every evaluation of an individual with the same two vectors, in a scheduler with the
  same problem data (whatever its archive, tabu list and settings), writes the same
  fitness and makespan; it returns \<open>f\<close> and stores the same schedule unless the archive
  update raises, which it cannot do when the archive is off or the vectors are non-empty
  and no archived individual is shorter.  Re-evaluating the individual that an evaluation
  has left behind changes none of its fields.\<close>

theorem evaluate_individual_deterministic:
  "(outcome (evaluate_individual s ind) = Inr f \<and>
    machines s' = machines s \<and> all_operations s' = all_operations s \<and>
    machine_assignment ind' = machine_assignment ind \<and>
    operation_sequence ind' = operation_sequence ind \<longrightarrow>
      fitness (individual_after (evaluate_individual s' ind')) =
        fitness (individual_after (evaluate_individual s ind)) \<and>
      actual_makespan (individual_after (evaluate_individual s' ind')) =
        actual_makespan (individual_after (evaluate_individual s ind)) \<and>
      (\<not> raises (outcome (evaluate_individual s' ind')) \<longrightarrow>
         outcome (evaluate_individual s' ind') = Inr f \<and>
         schedule (individual_after (evaluate_individual s' ind')) =
           schedule (individual_after (evaluate_individual s ind))) \<and>
      (archive_cannot_raise s' ind' \<longrightarrow> \<not> raises (outcome (evaluate_individual s' ind')))) \<and>
   individual_after (evaluate_individual (scheduler_after (evaluate_individual s ind))
      (individual_after (evaluate_individual s ind))) = individual_after (evaluate_individual s ind)"
proof (intro conjI impI)
  assume a: "outcome (evaluate_individual s ind) = Inr f \<and>
    machines s' = machines s \<and> all_operations s' = all_operations s \<and>
    machine_assignment ind' = machine_assignment ind \<and>
    operation_sequence ind' = operation_sequence ind"
  then obtain st where st: "decode_loop s ind (init_decode_state s) (operation_sequence ind) = Inr st"
    using outcome_Inr_decode by blast
  with a have st': "decode_loop s' ind' (init_decode_state s') (operation_sequence ind') = Inr st"
    using decode_loop_cong[of s' s ind' ind] init_decode_state_cong[of s' s] by simp
  from a have f: "outcome (evaluate_individual s ind) = Inr f" by simp
  show "fitness (individual_after (evaluate_individual s' ind')) =
        fitness (individual_after (evaluate_individual s ind))"
    using evaluate_individual_fields(1)[OF st] evaluate_individual_fields(1)[OF st'] by simp
  show "actual_makespan (individual_after (evaluate_individual s' ind')) =
        actual_makespan (individual_after (evaluate_individual s ind))"
    using evaluate_individual_fields(2)[OF st] evaluate_individual_fields(2)[OF st'] by simp
  {
    assume "\<not> raises (outcome (evaluate_individual s' ind'))"
    then obtain f' where f': "outcome (evaluate_individual s' ind') = Inr f'"
      by (cases "outcome (evaluate_individual s' ind')") (simp_all add: raises_def)
    from evaluate_individual_fields(5)[OF st f] evaluate_individual_fields(5)[OF st' f'] f'
    show "outcome (evaluate_individual s' ind') = Inr f"
      and "schedule (individual_after (evaluate_individual s' ind')) =
           schedule (individual_after (evaluate_individual s ind))"
      by simp_all
  }
  {
    assume "archive_cannot_raise s' ind'"
    with st' show "\<not> raises (outcome (evaluate_individual s' ind'))"
      by (rule evaluate_returns)
  }
next
  show "individual_after (evaluate_individual (scheduler_after (evaluate_individual s ind))
      (individual_after (evaluate_individual s ind))) = individual_after (evaluate_individual s ind)"
    by (rule reevaluate_same_individual)
qed

theorem evaluate_individual_deterministic_witness:
  "outcome (evaluate_individual pants_scheduler pants_in_order) = Inr (Fin 120) \<and>
   archive_cannot_raise (scheduler_after (evaluate_individual pants_scheduler pants_in_order))
     (individual_after (evaluate_individual pants_scheduler pants_in_order)) \<and>
   outcome (evaluate_individual (scheduler_after (evaluate_individual pants_scheduler pants_in_order))
     (individual_after (evaluate_individual pants_scheduler pants_in_order))) = Inr (Fin 120) \<and>
   schedule (individual_after (evaluate_individual
     (scheduler_after (evaluate_individual pants_scheduler pants_in_order))
     (individual_after (evaluate_individual pants_scheduler pants_in_order)))) =
   schedule (individual_after (evaluate_individual pants_scheduler pants_in_order))"
proof -
  let ?r1 = "evaluate_individual pants_scheduler pants_in_order"
  have a: "outcome ?r1 = Inr (Fin 120)" by code_simp
  have b: "machines (scheduler_after ?r1) = machines pants_scheduler" by code_simp
  have c: "all_operations (scheduler_after ?r1) = all_operations pants_scheduler" by code_simp
  have d: "machine_assignment (individual_after ?r1) = machine_assignment pants_in_order" by code_simp
  have e: "operation_sequence (individual_after ?r1) = operation_sequence pants_in_order" by code_simp
  have g: "archive_cannot_raise (scheduler_after ?r1) (individual_after ?r1)" by code_simp
  from evaluate_individual_deterministic[of pants_scheduler pants_in_order "Fin 120"
      "scheduler_after ?r1" "individual_after ?r1"] a b c d e g
  have "outcome (evaluate_individual (scheduler_after ?r1) (individual_after ?r1)) = Inr (Fin 120)"
    and "schedule (individual_after (evaluate_individual (scheduler_after ?r1) (individual_after ?r1))) =
         schedule (individual_after ?r1)"
    by blast+
  with a g show ?thesis by blast
qed
section \<open>Permutations\<close>

lemma is_permutation_iff:
  "is_permutation xs n \<longleftrightarrow> distinct xs \<and> set xs = int ` {0..<n}"
proof -
  have d: "distinct (map int [0..<n])" by (simp add: distinct_map)
  have s: "set (map int [0..<n]) = int ` {0..<n}" by simp
  show ?thesis
  proof
    assume "is_permutation xs n"
    then have m: "mset xs = mset (map int [0..<n])" by (simp add: is_permutation_def)
    from m d have "distinct xs" by (metis mset_eq_imp_distinct_iff)
    moreover from m s have "set xs = int ` {0..<n}" by (metis mset_eq_setD)
    ultimately show "distinct xs \<and> set xs = int ` {0..<n}" by simp
  next
    assume a: "distinct xs \<and> set xs = int ` {0..<n}"
    with d s have "mset xs = mset (map int [0..<n])"
      by (metis set_eq_iff_mset_eq_distinct)
    then show "is_permutation xs n" by (simp add: is_permutation_def)
  qed
qed

lemma is_permutation_length: "is_permutation xs n \<Longrightarrow> length xs = n"
  by (metis is_permutation_def length_map length_upt minus_nat.diff_0 size_mset)

lemma is_permutation_nonneg: "is_permutation xs n \<Longrightarrow> x \<in> set xs \<Longrightarrow> 0 \<le> x"
  by (auto simp: is_permutation_iff)

lemma is_permutation_mset:
  "is_permutation xs n \<Longrightarrow> mset ys = mset xs \<Longrightarrow> is_permutation ys n"
  by (simp add: is_permutation_def)

section \<open>The filling loop\<close>

lemma fill_loop_eq:
  assumes "k \<le> length child"
  shows "fill_loop [k..<length child] child remaining j =
           (case fill_list (drop k child) (drop j remaining) of
              Inl e \<Rightarrow> Inl e | Inr res \<Rightarrow> Inr (take k child @ res))"
  using assms
proof (induction "length child - k" arbitrary: k child j)
  case 0
  then show ?case by simp
next
  case (Suc m)
  then have k: "k < length child" by simp
  then have upt: "[k..<length child] = k # [Suc k..<length child]" by (simp add: upt_rec)
  have dk: "drop k child = child ! k # drop (Suc k) child"
    using k by (simp add: Cons_nth_drop_Suc)
  show ?case
  proof (cases "child ! k = - 1")
    case False
    from Suc(2) k have m: "m = length child - Suc k" by simp
    from Suc(1)[OF m, of j] k
    have ih: "fill_loop [Suc k..<length child] child remaining j =
           (case fill_list (drop (Suc k) child) (drop j remaining) of
              Inl e \<Rightarrow> Inl e | Inr res \<Rightarrow> Inr (take (Suc k) child @ res))" by simp
    show ?thesis
      using False k
      by (simp add: upt ih dk take_Suc_conv_app_nth split: sum.splits)
  next
    case True
    show ?thesis
    proof (cases "j < length remaining")
      case jf: False
      then show ?thesis using True k by (simp add: upt dk)
    next
      case jt: True
      let ?child = "child[k := remaining ! j]"
      have len: "length ?child = length child" by simp
      from Suc(2) k have m: "m = length ?child - Suc k" by simp
      from Suc(1)[OF m, of "Suc j"] k
      have ih: "fill_loop [Suc k..<length child] ?child remaining (Suc j) =
           (case fill_list (drop (Suc k) ?child) (drop (Suc j) remaining) of
              Inl e \<Rightarrow> Inl e | Inr res \<Rightarrow> Inr (take (Suc k) ?child @ res))" by simp
      have dj: "drop j remaining = remaining ! j # drop (Suc j) remaining"
        using jt by (simp add: Cons_nth_drop_Suc)
      have tk: "take (Suc k) ?child = take k child @ [remaining ! j]"
        using k by (simp add: take_Suc_conv_app_nth)
      show ?thesis
        using True k jt
        by (simp add: upt ih dk dj tk split: sum.splits)
    qed
  qed
qed

lemma fill_list_mset:
  assumes "length (filter (\<lambda>x. x = - 1) child) = length remaining"
  shows "\<exists>res. fill_list child remaining = Inr res \<and>
           mset res = mset (filter (\<lambda>x. x \<noteq> - 1) child) + mset remaining"
  using assms
proof (induction child arbitrary: remaining)
  case Nil
  then show ?case by simp
next
  case (Cons c cs)
  show ?case
  proof (cases "c = - 1")
    case True
    with Cons.prems obtain r rs where r: "remaining = r # rs"
      by (cases remaining) auto
    with Cons.prems True have "length (filter (\<lambda>x. x = - 1) cs) = length rs" by simp
    from Cons.IH[OF this] obtain res where "fill_list cs rs = Inr res"
      "mset res = mset (filter (\<lambda>x. x \<noteq> - 1) cs) + mset rs" by blast
    with True r show ?thesis by simp
  next
    case False
    with Cons.prems have "length (filter (\<lambda>x. x = - 1) cs) = length remaining" by simp
    from Cons.IH[OF this] obtain res where "fill_list cs remaining = Inr res"
      "mset res = mset (filter (\<lambda>x. x \<noteq> - 1) cs) + mset remaining" by blast
    with False show ?thesis by simp
  qed
qed

lemma fill_loop_mset:
  assumes "length child = n"
    and "length (filter (\<lambda>x. x = - 1) child) = length remaining"
  shows "\<exists>res. fill_loop [0..<n] child remaining 0 = Inr res \<and>
           mset res = mset (filter (\<lambda>x. x \<noteq> - 1) child) + mset remaining"
proof -
  from fill_list_mset[OF assms(2)] obtain res where
    r: "fill_list child remaining = Inr res"
    "mset res = mset (filter (\<lambda>x. x \<noteq> - 1) child) + mset remaining" by blast
  from fill_loop_eq[of 0 child remaining 0] r(1) assms(1)
  have "fill_loop [0..<n] child remaining 0 = Inr res" by simp
  with r(2) show ?thesis by blast
qed

text \<open>The part of a distinct list inside a distinct segment, and the part outside.\<close>

lemma split_by_segment:
  assumes "distinct ys" and "distinct seg" and "set seg \<subseteq> set ys"
  shows "mset seg + mset (filter (\<lambda>x. x \<notin> set seg) ys) = mset ys"
    and "length (filter (\<lambda>x. x \<notin> set seg) ys) + length seg = length ys"
proof -
  have "set (filter (\<lambda>x. x \<in> set seg) ys) = set seg" using assms(3) by auto
  moreover have "distinct (filter (\<lambda>x. x \<in> set seg) ys)" using assms(1) by simp
  ultimately have m: "mset (filter (\<lambda>x. x \<in> set seg) ys) = mset seg"
    using assms(2) by (metis set_eq_iff_mset_eq_distinct)
  have "mset (filter (\<lambda>x. x \<in> set seg) ys) + mset (filter (\<lambda>x. x \<notin> set seg) ys) = mset ys"
    by (induction ys) simp_all
  with m show a: "mset seg + mset (filter (\<lambda>x. x \<notin> set seg) ys) = mset ys" by simp
  from a have "size (mset seg + mset (filter (\<lambda>x. x \<notin> set seg) ys)) = size (mset ys)"
    by (rule arg_cong)
  then have "size (mset seg) + size (mset (filter (\<lambda>x. x \<notin> set seg) ys)) = size (mset ys)"
    by (simp only: size_union)
  then show "length (filter (\<lambda>x. x \<notin> set seg) ys) + length seg = length ys"
    by (simp only: size_mset add.commute)
qed

text \<open>Filling a child whose fixed genes are distinct operations of the other parent,
  with the other parent's operations that are not among them, gives a permutation.\<close>

lemma fill_loop_permutation:
  assumes p: "is_permutation other n"
    and len: "length child = n"
    and d: "distinct (filter (\<lambda>x. x \<noteq> - 1) child)"
    and sub: "set (filter (\<lambda>x. x \<noteq> - 1) child) \<subseteq> set other"
    and sel: "\<forall>x \<in> set other. x \<in> S \<longleftrightarrow> x \<in> set (filter (\<lambda>x. x \<noteq> - 1) child)"
  shows "\<exists>res. fill_loop [0..<n] child (filter (\<lambda>x. x \<notin> S) other) 0 = Inr res \<and>
           is_permutation res n"
proof -
  let ?seg = "filter (\<lambda>x. x \<noteq> - 1) child"
  from p have dist: "distinct other" and lo: "length other = n"
    by (simp_all add: is_permutation_iff is_permutation_length)
  from sel have rem: "filter (\<lambda>x. x \<notin> S) other = filter (\<lambda>x. x \<notin> set ?seg) other"
    by (intro filter_cong) auto
  have "length (filter (\<lambda>x. x = - 1) child) + length ?seg = length child"
    using sum_length_filter_compl[of "\<lambda>x. x = - 1" child] by simp
  moreover from split_by_segment(2)[OF dist d sub]
  have "length (filter (\<lambda>x. x \<notin> set ?seg) other) + length ?seg = n" using lo by simp
  ultimately have cnt: "length (filter (\<lambda>x. x = - 1) child) = length (filter (\<lambda>x. x \<notin> S) other)"
    using len rem by simp
  from fill_loop_mset[OF len cnt] obtain res where
    r: "fill_loop [0..<n] child (filter (\<lambda>x. x \<notin> S) other) 0 = Inr res"
    "mset res = mset ?seg + mset (filter (\<lambda>x. x \<notin> S) other)" by blast
  from r(2) rem split_by_segment(1)[OF dist d sub] have "mset res = mset other" by simp
  with p have "is_permutation res n" by (rule is_permutation_mset)
  with r(1) show ?thesis by blast
qed
section \<open>The crossover operators\<close>

lemma fill_remaining_permutation:
  assumes p: "is_permutation other n"
    and len: "length child = n"
    and d: "distinct (filter (\<lambda>x. x \<noteq> - 1) child)"
    and sub: "set (filter (\<lambda>x. x \<noteq> - 1) child) \<subseteq> set other"
  shows "\<exists>res. fill_remaining n child other = Inr res \<and> is_permutation res n"
proof -
  have "x \<noteq> - 1" if "x \<in> set other" for x
    using is_permutation_nonneg[OF p that] by simp
  then have "\<forall>x \<in> set other. x \<in> set child \<longleftrightarrow> x \<in> set (filter (\<lambda>x. x \<noteq> - 1) child)"
    by simp
  from fill_loop_permutation[OF p len d sub this] show ?thesis
    by (simp add: fill_remaining_def)
qed

lemma order_child:
  assumes p1: "is_permutation seq1 n" and se: "start < end" and en: "end < n"
  shows "length (py_slice_assign (replicate n (- 1)) start end (py_slice seq1 start end)) = n"
    and "filter (\<lambda>x. x \<noteq> - 1) (py_slice_assign (replicate n (- 1)) start end (py_slice seq1 start end))
           = py_slice seq1 start end"
proof -
  from p1 have l: "length seq1 = n" by (rule is_permutation_length)
  have child: "py_slice_assign (replicate n (- 1)) start end (py_slice seq1 start end) =
           replicate start (- 1) @ py_slice seq1 start end @ replicate (n - end) (- 1)"
    using se en by (simp add: py_slice_assign_def min_def max_def)
  have ls: "length (py_slice seq1 start end) = end - start"
    using se en l by (simp add: py_slice_def min_def)
  show "length (py_slice_assign (replicate n (- 1)) start end (py_slice seq1 start end)) = n"
    using se en by (simp add: child ls)
  have "\<forall>x \<in> set (py_slice seq1 start end). x \<noteq> - 1"
  proof
    fix x assume "x \<in> set (py_slice seq1 start end)"
    then have "x \<in> set seq1" unfolding py_slice_def by (meson in_set_dropD in_set_takeD)
    with is_permutation_nonneg[OF p1] show "x \<noteq> - 1" by fastforce
  qed
  then have "filter (\<lambda>x. x \<noteq> - 1) (py_slice seq1 start end) = py_slice seq1 start end"
    by (simp add: filter_id_conv)
  then show "filter (\<lambda>x. x \<noteq> - 1) (py_slice_assign (replicate n (- 1)) start end (py_slice seq1 start end))
           = py_slice seq1 start end"
    by (simp add: child)
qed

lemma order_fill:
  assumes p1: "is_permutation seq1 n" and p2: "is_permutation seq2 n"
    and se: "start < end" and en: "end < n"
  shows "\<exists>res. fill_remaining n (py_slice_assign (replicate n (- 1)) start end (py_slice seq1 start end)) seq2
           = Inr res \<and> is_permutation res n"
proof (rule fill_remaining_permutation[OF p2 order_child(1)[OF p1 se en]])
  have sub: "set (py_slice seq1 start end) \<subseteq> set seq1"
    unfolding py_slice_def by (meson in_set_dropD in_set_takeD subsetI)
  from p1 have "distinct seq1" by (simp add: is_permutation_iff)
  then have "distinct (py_slice seq1 start end)" by (simp add: py_slice_def)
  then show "distinct (filter (\<lambda>x. x \<noteq> - 1)
       (py_slice_assign (replicate n (- 1)) start end (py_slice seq1 start end)))"
    by (simp only: order_child(2)[OF p1 se en])
  from p1 p2 have "set seq1 = set seq2" by (simp add: is_permutation_iff)
  with sub show "set (filter (\<lambda>x. x \<noteq> - 1)
       (py_slice_assign (replicate n (- 1)) start end (py_slice seq1 start end))) \<subseteq> set seq2"
    by (simp only: order_child(2)[OF p1 se en])
qed

lemma cross_machines_returns:
  assumes "n \<le> length (machine_assignment parent1)" and "n \<le> length (machine_assignment parent2)"
  shows "\<exists>ms. cross_machines coin n parent1 parent2 = Inr ms \<and>
           length (fst ms) = n \<and> length (snd ms) = n"
  using assms by (simp add: cross_machines_def)

lemma order_crossover_permutation:
  assumes p1: "is_permutation (operation_sequence parent1) n"
    and p2: "is_permutation (operation_sequence parent2) n"
    and m1: "length (machine_assignment parent1) = n"
    and m2: "length (machine_assignment parent2) = n"
    and v: "valid_pair_sample n sample"
  shows "\<exists>c1 c2. order_crossover sample coin parent1 parent2 = Inr (c1, c2) \<and>
           is_permutation (operation_sequence c1) n \<and> is_permutation (operation_sequence c2) n \<and>
           length (machine_assignment c1) = n \<and> length (machine_assignment c2) = n"
proof -
  let ?start = "min (fst sample) (snd sample)"
  let ?end = "max (fst sample) (snd sample)"
  from v have se: "?start < ?end" and en: "?end < n"
    by (auto simp: valid_pair_sample_def)
  from p1 have l: "length (operation_sequence parent1) = n" by (rule is_permutation_length)
  from se en have n2: "\<not> n < 2" by linarith
  from order_fill[OF p1 p2 se en] obtain r1 where
    r1: "fill_remaining n (py_slice_assign (replicate n (- 1)) ?start ?end
           (py_slice (operation_sequence parent1) ?start ?end)) (operation_sequence parent2) = Inr r1"
    "is_permutation r1 n" by blast
  from order_fill[OF p2 p1 se en] obtain r2 where
    r2: "fill_remaining n (py_slice_assign (replicate n (- 1)) ?start ?end
           (py_slice (operation_sequence parent2) ?start ?end)) (operation_sequence parent1) = Inr r2"
    "is_permutation r2 n" by blast
  from cross_machines_returns[of n parent1 parent2 coin] m1 m2 obtain ms where
    ms: "cross_machines coin n parent1 parent2 = Inr ms" "length (fst ms) = n" "length (snd ms) = n"
    by auto
  have "order_crossover sample coin parent1 parent2 =
          Inr (new_Individual (fst ms) r1, new_Individual (snd ms) r2)"
    using n2 r1(1) r2(1) ms(1) by (simp add: order_crossover_def l Let_def)
  with r1(2) r2(2) ms(2,3) show ?thesis by (simp add: new_Individual_def)
qed

subsection \<open>Uniform crossover\<close>

lemma append_unused_inv:
  assumes "snd cu = set (fst cu)" and "distinct (fst cu)" and "set (fst cu) \<subseteq> A" and "x \<in> A"
  shows "snd (append_unused cu x) = set (fst (append_unused cu x)) \<and>
         distinct (fst (append_unused cu x)) \<and> set (fst (append_unused cu x)) \<subseteq> A"
  using assms by (auto simp: append_unused_def)

lemma uniform_loop_inv:
  assumes "\<forall>i \<in> set idxs. i < length seq1 \<and> i < length seq2"
    and "set seq1 \<subseteq> A" and "set seq2 \<subseteq> A"
    and "snd (fst st) = set (fst (fst st))" and "distinct (fst (fst st))" and "set (fst (fst st)) \<subseteq> A"
    and "snd (snd st) = set (fst (snd st))" and "distinct (fst (snd st))" and "set (fst (snd st)) \<subseteq> A"
  shows "\<exists>st'. uniform_loop coin seq1 seq2 idxs st = Inr st' \<and>
           snd (fst st') = set (fst (fst st')) \<and> distinct (fst (fst st')) \<and> set (fst (fst st')) \<subseteq> A \<and>
           snd (snd st') = set (fst (snd st')) \<and> distinct (fst (snd st')) \<and> set (fst (snd st')) \<subseteq> A"
  using assms
proof (induction idxs arbitrary: st)
  case Nil
  then show ?case by simp
next
  case (Cons i idxs)
  from Cons.prems(1) have i: "i < length seq1" "i < length seq2" by simp_all
  with Cons.prems(2,3) have a: "seq1 ! i \<in> A" "seq2 ! i \<in> A" by auto
  let ?st = "if coin i
              then (append_unused (fst st) (seq1 ! i), append_unused (snd st) (seq2 ! i))
              else (append_unused (fst st) (seq2 ! i), append_unused (snd st) (seq1 ! i))"
  have 1: "snd (fst ?st) = set (fst (fst ?st)) \<and> distinct (fst (fst ?st)) \<and> set (fst (fst ?st)) \<subseteq> A"
    using append_unused_inv[OF Cons.prems(4,5,6) a(1)] append_unused_inv[OF Cons.prems(4,5,6) a(2)]
    by simp
  have 2: "snd (snd ?st) = set (fst (snd ?st)) \<and> distinct (fst (snd ?st)) \<and> set (fst (snd ?st)) \<subseteq> A"
    using append_unused_inv[OF Cons.prems(7,8,9) a(1)] append_unused_inv[OF Cons.prems(7,8,9) a(2)]
    by simp
  from Cons.prems(1) have rest: "\<forall>i \<in> set idxs. i < length seq1 \<and> i < length seq2" by simp
  have "\<exists>st'. uniform_loop coin seq1 seq2 idxs ?st = Inr st' \<and>
           snd (fst st') = set (fst (fst st')) \<and> distinct (fst (fst st')) \<and> set (fst (fst st')) \<subseteq> A \<and>
           snd (snd st') = set (fst (snd st')) \<and> distinct (fst (snd st')) \<and> set (fst (snd st')) \<subseteq> A"
    using 1 2 by (intro Cons.IH[OF rest Cons.prems(2,3)]) blast+
  with i show ?case by simp
qed

lemma append_missing_permutation:
  assumes "distinct c" and "set c \<subseteq> int ` {0..<n}"
  shows "is_permutation (c @ sorted_list_of_set (int ` {0..<n} - set c)) n"
proof -
  have f: "finite (int ` {0..<n} - set c)" by simp
  have "distinct (c @ sorted_list_of_set (int ` {0..<n} - set c))"
    using assms(1) f by simp
  moreover have "set (c @ sorted_list_of_set (int ` {0..<n} - set c)) = int ` {0..<n}"
    using assms(2) f by auto
  ultimately show ?thesis by (simp only: is_permutation_iff)
qed

lemma uniform_crossover_permutation:
  assumes p1: "is_permutation (operation_sequence parent1) n"
    and p2: "is_permutation (operation_sequence parent2) n"
    and m1: "length (machine_assignment parent1) = n"
    and m2: "length (machine_assignment parent2) = n"
  shows "\<exists>c1 c2. uniform_crossover coin_m coin_s parent1 parent2 = Inr (c1, c2) \<and>
           is_permutation (operation_sequence c1) n \<and> is_permutation (operation_sequence c2) n \<and>
           length (machine_assignment c1) = n \<and> length (machine_assignment c2) = n"
proof -
  let ?A = "int ` {0..<n}"
  from p1 p2 have l: "length (operation_sequence parent1) = n" "length (operation_sequence parent2) = n"
    by (simp_all add: is_permutation_length)
  from p1 p2 have s: "set (operation_sequence parent1) \<subseteq> ?A" "set (operation_sequence parent2) \<subseteq> ?A"
    by (simp_all add: is_permutation_iff)
  from cross_machines_returns[of n parent1 parent2 coin_m] m1 m2 obtain ms where
    ms: "cross_machines coin_m n parent1 parent2 = Inr ms" "length (fst ms) = n" "length (snd ms) = n"
    by auto
  have "\<forall>i \<in> set [0..<n]. i < length (operation_sequence parent1) \<and> i < length (operation_sequence parent2)"
    using l by simp
  from uniform_loop_inv[OF this s, of "(([], {}), ([], {}))" coin_s] obtain st where
    st: "uniform_loop coin_s (operation_sequence parent1) (operation_sequence parent2) [0..<n]
           (([], {}), ([], {})) = Inr st"
    and i1: "snd (fst st) = set (fst (fst st))" "distinct (fst (fst st))" "set (fst (fst st)) \<subseteq> ?A"
    and i2: "snd (snd st) = set (fst (snd st))" "distinct (fst (snd st))" "set (fst (snd st)) \<subseteq> ?A"
    by auto
  have eq: "uniform_crossover coin_m coin_s parent1 parent2 =
     Inr (new_Individual (fst ms) (fst (fst st) @ sorted_list_of_set (?A - set (fst (fst st)))),
          new_Individual (snd ms) (fst (snd st) @ sorted_list_of_set (?A - set (fst (snd st)))))"
    using ms(1) st i1(1) i2(1) by (simp add: uniform_crossover_def l m1 Let_def)
  from append_missing_permutation[OF i1(2,3)] append_missing_permutation[OF i2(2,3)] ms(2,3)
  show ?thesis by (simp add: eq new_Individual_def)
qed

subsection \<open>Position-based crossover\<close>

lemma copy_positions_returns:
  assumes "\<forall>pos \<in> set positions. pos < length src \<and> pos < length child"
  shows "\<exists>res. copy_positions positions src child = Inr res \<and> length res = length child \<and>
           (\<forall>i < length child. res ! i = (if i \<in> set positions then src ! i else child ! i))"
  using assms
proof (induction positions arbitrary: child)
  case Nil
  then show ?case by simp
next
  case (Cons pos positions)
  let ?child = "child[pos := src ! pos]"
  from Cons.prems have pos: "pos < length src" "pos < length child" by simp_all
  from Cons.prems have "\<forall>p \<in> set positions. p < length src \<and> p < length ?child" by simp
  from Cons.IH[OF this] obtain res where
    r: "copy_positions positions src ?child = Inr res" "length res = length ?child"
    "\<forall>i < length ?child. res ! i = (if i \<in> set positions then src ! i else ?child ! i)" by blast
  have "\<forall>i < length child. res ! i = (if i \<in> set (pos # positions) then src ! i else child ! i)"
    using r(3) by (auto simp: nth_list_update)
  with r(1,2) pos show ?case by simp
qed

lemma pbx_child:
  assumes p1: "is_permutation seq1 n"
    and pos: "\<forall>pos \<in> set positions. pos < n"
  shows "\<exists>child. copy_positions positions seq1 (replicate n (- 1)) = Inr child \<and> length child = n \<and>
           distinct (filter (\<lambda>x. x \<noteq> - 1) child) \<and>
           set (filter (\<lambda>x. x \<noteq> - 1) child) = set (map (\<lambda>pos. seq1 ! pos) positions)"
proof -
  from p1 have l: "length seq1 = n" and d: "distinct seq1"
    by (simp_all add: is_permutation_length is_permutation_iff)
  have "\<forall>p \<in> set positions. p < length seq1 \<and> p < length (replicate n (- 1 :: int))"
    using pos l by simp
  from copy_positions_returns[OF this] obtain child where
    c: "copy_positions positions seq1 (replicate n (- 1)) = Inr child" "length child = n"
    "\<forall>i < n. child ! i = (if i \<in> set positions then seq1 ! i else - 1)" by auto
  let ?f = "\<lambda>i. if i \<in> set positions then seq1 ! i else - 1"
  have cm: "child = map ?f [0..<n]"
    using c(2,3) by (intro nth_equalityI) simp_all
  have nn: "\<forall>i < n. seq1 ! i \<noteq> - 1"
  proof (intro allI impI)
    fix i assume "i < n"
    then have "seq1 ! i \<in> set seq1" using l by simp
    with is_permutation_nonneg[OF p1] show "seq1 ! i \<noteq> - 1" by fastforce
  qed
  have fl: "filter (\<lambda>x. x \<noteq> - 1) child = map (\<lambda>i. seq1 ! i) (filter (\<lambda>i. i \<in> set positions) [0..<n])"
  proof -
    have "filter (\<lambda>x. x \<noteq> - 1) child = map ?f (filter (\<lambda>i. ?f i \<noteq> - 1) [0..<n])"
      by (simp add: cm filter_map o_def)
    also have "filter (\<lambda>i. ?f i \<noteq> - 1) [0..<n] = filter (\<lambda>i. i \<in> set positions) [0..<n]"
      using nn by (intro filter_cong) auto
    also have "map ?f (filter (\<lambda>i. i \<in> set positions) [0..<n]) =
               map (\<lambda>i. seq1 ! i) (filter (\<lambda>i. i \<in> set positions) [0..<n])"
      by (intro map_cong) auto
    finally show ?thesis .
  qed
  have inj: "inj_on (\<lambda>i. seq1 ! i) (set (filter (\<lambda>i. i \<in> set positions) [0..<n]))"
    by (rule inj_on_nth[OF d]) (simp add: l)
  have dist: "distinct (filter (\<lambda>x. x \<noteq> - 1) child)"
    unfolding fl using inj by (simp add: distinct_map)
  have "set (filter (\<lambda>i. i \<in> set positions) [0..<n]) = set positions"
    using pos by auto
  then have st: "set (filter (\<lambda>x. x \<noteq> - 1) child) = set (map (\<lambda>pos. seq1 ! pos) positions)"
    unfolding fl by (simp only: set_map)
  from c(1,2) dist st show ?thesis by blast
qed

lemma pbx_fill:
  assumes p1: "is_permutation seq1 n" and p2: "is_permutation seq2 n"
    and pos: "\<forall>pos \<in> set positions. pos < n"
  shows "\<exists>child res. copy_positions positions seq1 (replicate n (- 1)) = Inr child \<and>
           fill_remaining_pbx n child seq2 (set (map (\<lambda>pos. seq1 ! pos) positions)) = Inr res \<and>
           is_permutation res n"
proof -
  from pbx_child[OF p1 pos] obtain child where
    c: "copy_positions positions seq1 (replicate n (- 1)) = Inr child" "length child = n"
    "distinct (filter (\<lambda>x. x \<noteq> - 1) child)"
    "set (filter (\<lambda>x. x \<noteq> - 1) child) = set (map (\<lambda>pos. seq1 ! pos) positions)" by blast
  from p1 have l: "length seq1 = n" by (rule is_permutation_length)
  have "set (map (\<lambda>pos. seq1 ! pos) positions) \<subseteq> set seq1" using pos l by auto
  moreover from p1 p2 have "set seq1 = set seq2" by (simp add: is_permutation_iff)
  ultimately have sub: "set (filter (\<lambda>x. x \<noteq> - 1) child) \<subseteq> set seq2" using c(4) by simp
  have sel: "\<forall>x \<in> set seq2. x \<in> set (map (\<lambda>pos. seq1 ! pos) positions) \<longleftrightarrow>
                x \<in> set (filter (\<lambda>x. x \<noteq> - 1) child)"
    using c(4) by simp
  from fill_loop_permutation[OF p2 c(2,3) sub sel] c(1) show ?thesis
    by (auto simp: fill_remaining_pbx_def)
qed

lemma position_based_crossover_permutation:
  assumes p1: "is_permutation (operation_sequence parent1) n"
    and p2: "is_permutation (operation_sequence parent2) n"
    and m1: "length (machine_assignment parent1) = n"
    and m2: "length (machine_assignment parent2) = n"
    and v: "valid_positions_sample n positions"
  shows "\<exists>c1 c2. position_based_crossover positions parent1 parent2 = Inr (c1, c2) \<and>
           is_permutation (operation_sequence c1) n \<and> is_permutation (operation_sequence c2) n \<and>
           length (machine_assignment c1) = n \<and> length (machine_assignment c2) = n"
proof -
  from v have pos: "\<forall>pos \<in> set positions. pos < n"
    by (simp add: valid_positions_sample_def list_all_iff)
  from p1 have l: "length (operation_sequence parent1) = n" by (rule is_permutation_length)
  have "\<forall>p \<in> set positions. p < length (machine_assignment parent2) \<and> p < length (machine_assignment parent1)"
    using pos m1 m2 by simp
  from copy_positions_returns[OF this] obtain ma1 where
    ma1: "copy_positions positions (machine_assignment parent2) (machine_assignment parent1) = Inr ma1"
    "length ma1 = n" using m1 by auto
  have "\<forall>p \<in> set positions. p < length (machine_assignment parent1) \<and> p < length (machine_assignment parent2)"
    using pos m1 m2 by simp
  from copy_positions_returns[OF this] obtain ma2 where
    ma2: "copy_positions positions (machine_assignment parent1) (machine_assignment parent2) = Inr ma2"
    "length ma2 = n" using m2 by auto
  from pbx_fill[OF p1 p2 pos] obtain child1 r1 where
    r1: "copy_positions positions (operation_sequence parent1) (replicate n (- 1)) = Inr child1"
    "fill_remaining_pbx n child1 (operation_sequence parent2)
       (set (map (\<lambda>pos. operation_sequence parent1 ! pos) positions)) = Inr r1"
    "is_permutation r1 n" by blast
  from pbx_fill[OF p2 p1 pos] obtain child2 r2 where
    r2: "copy_positions positions (operation_sequence parent2) (replicate n (- 1)) = Inr child2"
    "fill_remaining_pbx n child2 (operation_sequence parent1)
       (set (map (\<lambda>pos. operation_sequence parent2 ! pos) positions)) = Inr r2"
    "is_permutation r2 n" by blast
  have "position_based_crossover positions parent1 parent2 =
          Inr (new_Individual ma1 r1, new_Individual ma2 r2)"
    using ma1(1) ma2(1) r1(1,2) r2(1,2)
    by (simp add: position_based_crossover_def l Let_def)
  with r1(3) r2(3) ma1(2) ma2(2) show ?thesis by (simp add: new_Individual_def)
qed
section \<open>Mutation\<close>

lemma swap_positions_mset:
  assumes "swap_positions seq i j = Inr seq'"
  shows "mset seq' = mset seq"
proof -
  from assms have i: "i < length seq" and j: "j < length seq"
    and s: "seq' = seq[i := seq ! j, j := seq ! i]"
    by (auto simp: swap_positions_def split: if_splits)
  from mset_swap[OF j i] s show ?thesis by simp
qed

lemma mutate_swap_mset:
  assumes "mutate_swap s d ind = Inr seq'"
  shows "mset seq' = mset (operation_sequence ind)"
proof -
  from assms have "swap_positions (operation_sequence ind) (draw1 d) (draw2 d) = Inr seq'"
    by (auto simp: mutate_swap_def Let_def split: if_splits)
  then show ?thesis by (rule swap_positions_mset)
qed

lemma mutate_insert_mset:
  assumes "mutate_insert d ind = Inr seq'"
  shows "mset seq' = mset (operation_sequence ind)"
proof -
  let ?seq = "operation_sequence ind"
  let ?popped = "take (draw1 d) ?seq @ drop (Suc (draw1 d)) ?seq"
  from assms have i: "draw1 d < length ?seq"
    and s: "seq' = take (draw2 d) ?popped @ [?seq ! draw1 d] @ drop (draw2 d) ?popped"
    by (auto simp: mutate_insert_def Let_def split: if_splits)
  have "mset seq' = mset (take (draw2 d) ?popped @ drop (draw2 d) ?popped) + {#?seq ! draw1 d#}"
    unfolding s by (simp only: mset_append mset.simps) simp
  also have "\<dots> = mset ?popped + {#?seq ! draw1 d#}" by (simp only: append_take_drop_id)
  also have "\<dots> = mset (take (draw1 d) ?seq @ ?seq ! draw1 d # drop (Suc (draw1 d)) ?seq)" by simp
  also have "\<dots> = mset ?seq" using i by (simp only: id_take_nth_drop[symmetric])
  finally show ?thesis .
qed

lemma reverse_slice_mset:
  "mset (py_slice_assign seq a b (rev (py_slice seq a b))) = mset seq"
proof (cases "a \<le> b")
  case True
  have "mset (py_slice_assign seq a b (rev (py_slice seq a b))) =
        mset (take a (take b seq) @ drop a (take b seq)) + mset (drop b seq)"
    using True by (simp add: py_slice_assign_def py_slice_def max_def min_def)
  also have "\<dots> = mset (take b seq) + mset (drop b seq)"
    by (simp only: append_take_drop_id)
  also have "\<dots> = mset (take b seq @ drop b seq)"
    by (simp only: mset_append)
  also have "\<dots> = mset seq"
    by (simp only: append_take_drop_id)
  finally show ?thesis .
next
  case False
  then have "mset (py_slice_assign seq a b (rev (py_slice seq a b))) = mset (take a seq @ drop a seq)"
    by (simp add: py_slice_assign_def py_slice_def max_def)
  then show ?thesis by simp
qed

lemma mutate_reverse_mset:
  assumes "mutate_reverse d ind = Inr seq'"
  shows "mset seq' = mset (operation_sequence ind)"
  using assms reverse_slice_mset
  by (auto simp: mutate_reverse_def Let_def split: if_splits)

lemma mutate_individual_mset:
  assumes "mutate_individual s d ind = Inr ind'"
  shows "mset (operation_sequence ind') = mset (operation_sequence ind)"
proof -
  from assms obtain ma where
    r: "(if mutate_sequence d
         then bind_err (case strategy d of
                      Swap \<Rightarrow> mutate_swap s d ind
                    | Insert \<Rightarrow> mutate_insert d ind
                    | Reverse \<Rightarrow> mutate_reverse d ind) (\<lambda>seq.
              Inr (ind\<lparr>machine_assignment := ma, operation_sequence := seq\<rparr>))
         else Inr (ind\<lparr>machine_assignment := ma\<rparr>)) = Inr ind'"
    unfolding mutate_individual_def bind_err_eq_Inr by blast
  show ?thesis
  proof (cases "mutate_sequence d")
    case False
    with r show ?thesis by auto
  next
    case True
    with r have "bind_err (case strategy d of Swap \<Rightarrow> mutate_swap s d ind
                    | Insert \<Rightarrow> mutate_insert d ind | Reverse \<Rightarrow> mutate_reverse d ind)
               (\<lambda>seq. Inr (ind\<lparr>machine_assignment := ma, operation_sequence := seq\<rparr>)) = Inr ind'"
      by simp
    then obtain seq where
      seq: "(case strategy d of Swap \<Rightarrow> mutate_swap s d ind | Insert \<Rightarrow> mutate_insert d ind
             | Reverse \<Rightarrow> mutate_reverse d ind) = Inr seq"
      and i: "Inr (ind\<lparr>machine_assignment := ma, operation_sequence := seq\<rparr>) = (Inr ind' :: error + Individual)"
      unfolding bind_err_eq_Inr by blast
    from seq have "mset seq = mset (operation_sequence ind)"
      by (cases "strategy d")
         (simp_all add: mutate_swap_mset mutate_insert_mset mutate_reverse_mset)
    with i show ?thesis by auto
  qed
qed

subsection \<open>Mutation returns\<close>

lemma mapM_err_returns:
  assumes "\<forall>x \<in> set xs. \<not> raises (f x)"
  shows "\<exists>ys. mapM_err f xs = Inr ys \<and> length ys = length xs"
  using assms
proof (induction xs)
  case Nil
  then show ?case by simp
next
  case (Cons x xs)
  then obtain y where "f x = Inr y" unfolding not_raises_iff by auto
  moreover from Cons obtain ys where "mapM_err f xs = Inr ys" "length ys = length xs" by auto
  ultimately show ?case by simp
qed

lemma mutated_machine_returns:
  assumes vp: "valid_problem s" and i: "i < length (all_operations s)"
    and c: "critical_path_focus s"
    and ch: "choice_gene d i < max 1 (length (operation_to_machines s ! i) div 2)"
  shows "\<not> raises (mutated_machine s d ind i)"
proof (cases "mutate_gene d i \<and> length (operation_to_machines s ! i) > 1")
  case False
  with vp i c show ?thesis
    by (auto simp: mutated_machine_def dict_index_def valid_problem_def raises_def)
next
  case True
  let ?av = "operation_to_machines s ! i"
  let ?info = "all_operations s ! i"
  let ?f = "\<lambda>machine_idx. bind_err (py_get (machines s) machine_idx) (\<lambda>mid.
                               Inr (machine_idx, dict_get (processing_times ?info) mid 999))"
  from vp i have li: "i < length (operation_to_machines s)" by (simp add: valid_problem_def)
  then have mem: "?av \<in> set (operation_to_machines s)" by simp
  have "\<forall>idx \<in> set ?av. \<not> raises (?f idx)"
  proof
    fix idx assume "idx \<in> set ?av"
    with vp mem have "0 \<le> idx" "nat idx < length (machines s)"
      unfolding valid_problem_def by blast+
    then show "\<not> raises (?f idx)" by (simp add: py_get_nat raises_def)
  qed
  from mapM_err_returns[OF this] obtain opts where
    o: "mapM_err ?f ?av = Inr opts" "length opts = length ?av" by blast
  have g: "py_get (all_operations s) (int i) = Inr ?info" using i by (simp add: py_get_nat)
  have "max 1 (length opts div 2) \<le> length opts"
    using True o(2) by simp
  then have "length (take (max 1 (length (sort_key snd opts) div 2)) (sort_key snd opts)) =
               max 1 (length opts div 2)"
    by simp
  with ch o(2)
  have "choice_gene d i < length (take (max 1 (length (sort_key snd opts) div 2)) (sort_key snd opts))"
    by simp
  then show ?thesis
    using True c li g o(1)
    by (simp add: mutated_machine_def dict_index_def random_choice_def raises_def Let_def)
qed

lemma find_operation_range:
  assumes "find_operation s x = Some c"
  shows "c \<in> int ` {0..<length (all_operations s)}"
proof -
  from assms obtain p where p: "find (\<lambda>p. task_id (op_task (snd p)) = task_id (task x) \<and>
                   operation_idx (op_task (snd p)) = operation_idx (task x))
          (enumerate 0 (all_operations s)) = Some p" and c: "c = int (fst p)"
    by (auto simp: find_operation_def)
  from p obtain i where "i < length (enumerate 0 (all_operations s))"
    "p = enumerate 0 (all_operations s) ! i"
    unfolding find_Some_iff by blast
  then have "fst p < length (all_operations s)"
    by (simp add: nth_enumerate_eq)
  with c show ?thesis by simp
qed

lemma find_critical_operations_range:
  assumes "c \<in> set (find_critical_operations s ind)"
  shows "c \<in> int ` {0..<length (all_operations s)}"
proof -
  from assms have "c \<in> set (List.map_filter
       (\<lambda>x. if reaches (end_time x) (actual_makespan ind) (95 / 100) then find_operation s x else None)
       (schedule ind))"
    unfolding find_critical_operations_def by (rule in_set_takeD)
  then obtain x where "find_operation s x = Some c"
    by (auto simp: map_filter_def split: if_splits)
  then show ?thesis by (rule find_operation_range)
qed

lemma mutate_swap_returns:
  assumes p: "is_permutation (operation_sequence ind) n"
    and n: "length (all_operations s) = n" and n2: "2 \<le> n"
    and d1: "draw1 d < n" and d2: "draw2 d < n"
  shows "\<not> raises (mutate_swap s d ind)"
proof -
  let ?seq = "operation_sequence ind"
  let ?crit = "find_critical_operations s ind"
  let ?pos = "filter (\<lambda>i. ?seq ! i \<in> set ?crit) [0..<length ?seq]"
  from p have l: "length ?seq = n" by (rule is_permutation_length)
  have sw: "swap_positions ?seq (draw1 d) (draw2 d) = Inr (?seq[draw1 d := ?seq ! draw2 d, draw2 d := ?seq ! draw1 d])"
    using d1 d2 l by (simp add: swap_positions_def)
  have ne: "?pos \<noteq> []" if "?crit \<noteq> []"
  proof -
    from that obtain c where c: "c \<in> set ?crit" by (cases ?crit) auto
    then have "c \<in> int ` {0..<n}" using find_critical_operations_range n by blast
    with p have "c \<in> set ?seq" by (simp add: is_permutation_iff)
    then obtain i where "i < length ?seq" "?seq ! i = c" by (auto simp: in_set_conv_nth)
    with c have "i \<in> set ?pos" by simp
    then show ?thesis by (metis empty_iff empty_set)
  qed
  show ?thesis
    using sw ne n2 l
    by (auto simp: mutate_swap_def Let_def raises_def)
qed

lemma mutate_individual_returns:
  assumes p: "is_permutation (operation_sequence ind) n"
    and m: "length (machine_assignment ind) = n"
    and vp: "valid_problem s" and n: "length (all_operations s) = n"
    and c: "critical_path_focus s" and n2: "2 \<le> n"
    and v: "valid_mutation_draws s n d"
  shows "\<exists>ind'. mutate_individual s d ind = Inr ind'"
proof -
  from v have d1: "draw1 d < n" and d2: "draw2 d < n"
    and ch: "\<forall>i \<in> set [0..<n]. choice_gene d i < max 1 (length (operation_to_machines s ! i) div 2)"
    by (simp_all add: valid_mutation_draws_def)
  have "\<forall>i \<in> set [0..<length (machine_assignment ind)]. \<not> raises (mutated_machine s d ind i)"
    using mutated_machine_returns[OF vp _ c] ch m n by simp
  from mapM_err_returns[OF this] obtain ma where
    ma: "mapM_err (mutated_machine s d ind) [0..<length (machine_assignment ind)] = Inr ma" by blast
  from p have l: "length (operation_sequence ind) = n" by (rule is_permutation_length)
  have "\<not> raises (case strategy d of Swap \<Rightarrow> mutate_swap s d ind | Insert \<Rightarrow> mutate_insert d ind
             | Reverse \<Rightarrow> mutate_reverse d ind)"
  proof (cases "strategy d")
    case Swap
    with mutate_swap_returns[OF p n n2 d1 d2] show ?thesis by simp
  next
    case Insert
    with d1 n2 l show ?thesis
      by (auto simp: mutate_insert_def Let_def raises_def)
  next
    case Reverse
    with n2 l show ?thesis
      by (auto simp: mutate_reverse_def Let_def raises_def)
  qed
  then obtain seq where "(case strategy d of Swap \<Rightarrow> mutate_swap s d ind | Insert \<Rightarrow> mutate_insert d ind
             | Reverse \<Rightarrow> mutate_reverse d ind) = Inr seq"
    unfolding not_raises_iff by blast
  with ma show ?thesis by (simp add: mutate_individual_def)
qed

text \<open>C4.  When the operation sequences of two parents are permutations of \<open>0..n-1\<close>
  (and their machine vectors have length \<open>n\<close>), each of the three crossover operators
  returns two children whose operation sequences are permutations of \<open>0..n-1\<close>, for every
  outcome of the random draws; and whenever \<open>mutate_individual\<close> returns, the operation
  sequence of the mutated individual is a permutation of \<open>0..n-1\<close>.  It returns for every
  draw that \<^verbatim>\<open>random\<close> can deliver when the problem has \<open>n \<ge> 2\<close> tasks.\<close>

theorem genetic_operators_preserve_permutation:
  assumes "is_permutation (operation_sequence parent1) n"
    and "is_permutation (operation_sequence parent2) n"
    and "length (machine_assignment parent1) = n"
    and "length (machine_assignment parent2) = n"
  shows "(valid_pair_sample n sample \<longrightarrow>
            (\<exists>c1 c2. order_crossover sample coin parent1 parent2 = Inr (c1, c2) \<and>
               is_permutation (operation_sequence c1) n \<and> is_permutation (operation_sequence c2) n)) \<and>
         (\<exists>c1 c2. uniform_crossover coin_m coin_s parent1 parent2 = Inr (c1, c2) \<and>
               is_permutation (operation_sequence c1) n \<and> is_permutation (operation_sequence c2) n) \<and>
         (valid_positions_sample n positions \<longrightarrow>
            (\<exists>c1 c2. position_based_crossover positions parent1 parent2 = Inr (c1, c2) \<and>
               is_permutation (operation_sequence c1) n \<and> is_permutation (operation_sequence c2) n)) \<and>
         (\<forall>ind'. mutate_individual s d parent1 = Inr ind' \<longrightarrow>
               is_permutation (operation_sequence ind') n) \<and>
         (valid_problem s \<and> length (all_operations s) = n \<and> critical_path_focus s \<and> 2 \<le> n \<and>
          valid_mutation_draws s n d \<longrightarrow> (\<exists>ind'. mutate_individual s d parent1 = Inr ind'))"
proof (intro conjI impI allI)
  assume "valid_pair_sample n sample"
  from order_crossover_permutation[OF assms this]
  show "\<exists>c1 c2. order_crossover sample coin parent1 parent2 = Inr (c1, c2) \<and>
               is_permutation (operation_sequence c1) n \<and> is_permutation (operation_sequence c2) n"
    by blast
next
  from uniform_crossover_permutation[OF assms]
  show "\<exists>c1 c2. uniform_crossover coin_m coin_s parent1 parent2 = Inr (c1, c2) \<and>
               is_permutation (operation_sequence c1) n \<and> is_permutation (operation_sequence c2) n"
    by blast
next
  assume "valid_positions_sample n positions"
  from position_based_crossover_permutation[OF assms this]
  show "\<exists>c1 c2. position_based_crossover positions parent1 parent2 = Inr (c1, c2) \<and>
               is_permutation (operation_sequence c1) n \<and> is_permutation (operation_sequence c2) n"
    by blast
next
  fix ind'
  assume "mutate_individual s d parent1 = Inr ind'"
  then have "mset (operation_sequence ind') = mset (operation_sequence parent1)"
    by (rule mutate_individual_mset)
  with assms(1) show "is_permutation (operation_sequence ind') n"
    by (rule is_permutation_mset)
next
  assume "valid_problem s \<and> length (all_operations s) = n \<and> critical_path_focus s \<and> 2 \<le> n \<and>
          valid_mutation_draws s n d"
  with mutate_individual_returns[OF assms(1,3)]
  show "\<exists>ind'. mutate_individual s d parent1 = Inr ind'" by blast
qed

theorem genetic_operators_preserve_permutation_witness:
  "is_permutation (operation_sequence pants_in_order) 6 \<and>
   is_permutation (operation_sequence pants_swapped) 6 \<and>
   valid_pair_sample 6 (4, 1) \<and> valid_positions_sample 6 [4, 1] \<and>
   valid_mutation_draws pants_scheduler 6 example_draws \<and>
   (\<exists>c1 c2. order_crossover (4, 1) even pants_in_order pants_swapped = Inr (c1, c2) \<and>
       is_permutation (operation_sequence c1) 6 \<and> is_permutation (operation_sequence c2) 6) \<and>
   (\<exists>c1 c2. uniform_crossover even even pants_in_order pants_swapped = Inr (c1, c2) \<and>
       is_permutation (operation_sequence c1) 6 \<and> is_permutation (operation_sequence c2) 6) \<and>
   (\<exists>c1 c2. position_based_crossover [4, 1] pants_in_order pants_swapped = Inr (c1, c2) \<and>
       is_permutation (operation_sequence c1) 6 \<and> is_permutation (operation_sequence c2) 6) \<and>
   (\<exists>ind'. mutate_individual pants_scheduler example_draws pants_in_order = Inr ind' \<and>
       operation_sequence ind' = [3, 1, 2, 0, 4, 5] \<and> is_permutation (operation_sequence ind') 6)"
proof -
  have p1: "is_permutation (operation_sequence pants_in_order) 6"
    by code_simp
  have p2: "is_permutation (operation_sequence pants_swapped) 6"
    by code_simp
  have m1: "length (machine_assignment pants_in_order) = 6" by code_simp
  have m2: "length (machine_assignment pants_swapped) = 6" by code_simp
  have v1: "valid_pair_sample 6 (4, 1)" by code_simp
  have v2: "valid_positions_sample 6 [4, 1]" by code_simp
  have v3: "valid_mutation_draws pants_scheduler 6 example_draws" by code_simp
  have vp: "valid_problem pants_scheduler" by code_simp
  have n: "length (all_operations pants_scheduler) = 6" by code_simp
  have c: "critical_path_focus pants_scheduler" by code_simp
  have mu: "mutate_individual pants_scheduler example_draws pants_in_order =
      Inr (pants_in_order\<lparr>machine_assignment := [3, 4, 6, 8, 13, 15], operation_sequence := [3, 1, 2, 0, 4, 5]\<rparr>)"
    by code_simp
  note t = genetic_operators_preserve_permutation[OF p1 p2 m1 m2, of "(4, 1)" even even even "[4, 1]"
      pants_scheduler example_draws]
  from t v1 have a: "\<exists>c1 c2. order_crossover (4, 1) even pants_in_order pants_swapped = Inr (c1, c2) \<and>
       is_permutation (operation_sequence c1) 6 \<and> is_permutation (operation_sequence c2) 6" by blast
  from t have b: "\<exists>c1 c2. uniform_crossover even even pants_in_order pants_swapped = Inr (c1, c2) \<and>
       is_permutation (operation_sequence c1) 6 \<and> is_permutation (operation_sequence c2) 6" by blast
  from t v2 have cc: "\<exists>c1 c2. position_based_crossover [4, 1] pants_in_order pants_swapped = Inr (c1, c2) \<and>
       is_permutation (operation_sequence c1) 6 \<and> is_permutation (operation_sequence c2) 6" by blast
  from t mu have "is_permutation (operation_sequence
      (pants_in_order\<lparr>machine_assignment := [3, 4, 6, 8, 13, 15], operation_sequence := [3, 1, 2, 0, 4, 5]\<rparr>)) 6"
    by blast
  with mu have dd: "\<exists>ind'. mutate_individual pants_scheduler example_draws pants_in_order = Inr ind' \<and>
       operation_sequence ind' = [3, 1, 2, 0, 4, 5] \<and> is_permutation (operation_sequence ind') 6"
    by simp
  from p1 p2 v1 v2 v3 a b cc dd show ?thesis by blast
qed
section \<open>Variable neighbourhood search\<close>







section \<open>The generational loop\<close>

declare offspring_loop.simps [simp del]

lemma elite_vns_loop_inv:
  assumes "elite_vns_loop draws elite idxs acc = Inr acc'"
    and "length (snd acc) = length elite"
    and "\<forall>i < length elite. fitness (snd acc ! i) \<le> fitness (elite ! i)"
  shows "length (snd acc') = length elite \<and>
         (\<forall>i < length elite. fitness (snd acc' ! i) \<le> fitness (elite ! i))"
  using assms
proof (induction idxs arbitrary: acc)
  case Nil
  then show ?case by simp
next
  case (Cons i idxs)
  from Cons.prems(1) obtain r where r: "variable_neighborhood_search (draws i) (fst acc) (elite ! i) = Inr r"
    by (cases "variable_neighborhood_search (draws i) (fst acc) (elite ! i)") simp_all
  let ?acc = "(fst r, if fitness (snd r) < fitness (elite ! i) then (snd acc)[i := snd r] else snd acc)"
  from Cons.prems(1) r have 1: "elite_vns_loop draws elite idxs ?acc = Inr acc'" by simp
  have 2: "length (snd ?acc) = length elite" using Cons.prems(2) by simp
  have 3: "\<forall>j < length elite. fitness (snd ?acc ! j) \<le> fitness (elite ! j)"
  proof (intro allI impI)
    fix j assume j: "j < length elite"
    show "fitness (snd ?acc ! j) \<le> fitness (elite ! j)"
    proof (cases "fitness (snd r) < fitness (elite ! i) \<and> j = i")
      case True
      with j Cons.prems(2) show ?thesis by (simp add: less_imp_le)
    next
      case False
      with j Cons.prems(2,3) show ?thesis by (auto simp: nth_list_update)
    qed
  qed
  from Cons.IH[OF 1 2 3] show ?case .
qed

lemma offspring_loop_extends:
  assumes "offspring_loop draws ps generation population s new_population = Inr r"
  shows "\<exists>extra. snd r = new_population @ extra"
  using assms
proof (induction draws ps generation population s new_population rule: offspring_loop.induct)
  case (1 draws ps generation population s new_population)
  show ?case
  proof (cases "int (length new_population) < ps")
    case False
    with "1.prems" have "r = (s, new_population)"
      by (simp add: offspring_loop.simps[of draws ps generation population s new_population])
    then show ?thesis by simp
  next
    case True
    with "1.prems" obtain c where
      c: "make_children (draws (length new_population)) s generation population
            (length new_population) = Inr c"
      by (cases "make_children (draws (length new_population)) s generation population
            (length new_population)")
         (simp_all add: offspring_loop.simps[of draws ps generation population s new_population])
    with True "1.prems"
    have "offspring_loop draws ps generation population (fst c)
            (new_population @ [fst (snd c), snd (snd c)]) = Inr r"
      by (simp add: offspring_loop.simps[of draws ps generation population s new_population])
    from "1.IH"[OF True c this] show ?thesis by auto
  qed
qed

lemma py_prefix_head:
  assumes "py_prefix xs k \<noteq> []"
  shows "xs \<noteq> [] \<and> hd xs \<in> set (py_prefix xs k)"
proof -
  from assms obtain m where m: "py_prefix xs k = take m xs"
    by (auto simp: py_prefix_def split: if_splits)
  with assms have "xs \<noteq> []" "m \<noteq> 0" by auto
  then have "hd xs \<in> set (take m xs)"
    by (cases xs; cases m) simp_all
  with m \<open>xs \<noteq> []\<close> show ?thesis by simp
qed

lemma best_fitness_le:
  assumes "x \<in> set population"
  shows "best_fitness population \<le> fitness x"
  using assms by (simp add: best_fitness_def)

lemma best_fitness_sorted:
  assumes "population \<noteq> []" and "sorted (map fitness population)"
  shows "best_fitness population = fitness (hd population)"
proof -
  from assms obtain x rest where p: "population = x # rest" by (cases population) auto
  with assms(2) have "\<forall>y \<in> set rest. fitness x \<le> fitness y" by auto
  then have "Min (fitness ` set (x # rest)) = fitness x"
    by (intro Min_eqI) auto
  with p show ?thesis by (simp add: best_fitness_def)
qed

text \<open>One generation: the new population is sorted and not empty, and its best
  fitness is at most the best fitness of the population it was bred from.\<close>

lemma generation_step_best:
  assumes step: "generation_step g generation (s, population) = Inr (s', population')"
    and ne: "population \<noteq> []" and srt: "sorted (map fitness population)"
  shows "population' \<noteq> [] \<and> sorted (map fitness population') \<and>
         best_fitness population' \<le> best_fitness population"
proof -
  let ?elite = "take (elite_count s generation) population"
  have ec: "1 \<le> elite_count s generation" by (simp add: elite_count_def)
  with ne have elne: "?elite \<noteq> []" by (cases population) auto
  have hd_el: "?elite ! 0 = hd population"
    using ec ne by (cases population) (auto simp: hd_conv_nth)
  have gs: "generation_step g generation (s, population) =
     bind_err (if generation mod 20 = 0
          then elite_vns_loop (elite_draws g generation) ?elite [0..<min 2 (length ?elite)] (s, ?elite)
          else Inr (s, ?elite)) (\<lambda>r1.
     bind_err (offspring_loop (child_draws g generation) (population_size s) generation
                 population (fst r1) (snd r1)) (\<lambda>r2.
         let new_population = sort_key fitness (py_prefix (snd r2) (population_size s))
         in if new_population = [] then Inl IndexError else Inr (fst r2, new_population)))"
    by (simp add: generation_step_def Let_def)
  from step[unfolded gs bind_err_eq_Inr] obtain r1 where
    r1: "(if generation mod 20 = 0
          then elite_vns_loop (elite_draws g generation) ?elite [0..<min 2 (length ?elite)] (s, ?elite)
          else Inr (s, ?elite)) = Inr r1"
    and rest: "bind_err (offspring_loop (child_draws g generation) (population_size s) generation
                 population (fst r1) (snd r1)) (\<lambda>r2.
         let new_population = sort_key fitness (py_prefix (snd r2) (population_size s))
         in if new_population = [] then Inl IndexError else Inr (fst r2, new_population))
           = Inr (s', population')"
    unfolding bind_err_eq_Inr by blast
  have inv: "length (snd r1) = length ?elite \<and>
             (\<forall>i < length ?elite. fitness (snd r1 ! i) \<le> fitness (?elite ! i))"
  proof (cases "generation mod 20 = 0")
    case True
    with r1 have "elite_vns_loop (elite_draws g generation) ?elite [0..<min 2 (length ?elite)] (s, ?elite) = Inr r1"
      by simp
    from elite_vns_loop_inv[OF this] show ?thesis by simp
  next
    case False
    with r1 show ?thesis by auto
  qed
  from elne have el0: "0 < length ?elite" by blast
  with inv have "0 < length (snd r1)" by metis
  then have l1: "snd r1 \<noteq> []" by blast
  note el0
  with inv have "fitness (snd r1 ! 0) \<le> fitness (?elite ! 0)" by blast
  with l1 have f1: "fitness (hd (snd r1)) \<le> fitness (hd population)"
    by (metis hd_conv_nth hd_el)
  from rest obtain r2 where
    r2: "offspring_loop (child_draws g generation) (population_size s) generation
                 population (fst r1) (snd r1) = Inr r2"
    and fin: "(let new_population = sort_key fitness (py_prefix (snd r2) (population_size s))
         in if new_population = [] then Inl IndexError else Inr (fst r2, new_population))
           = Inr (s', population')"
    unfolding bind_err_eq_Inr by blast
  from offspring_loop_extends[OF r2] obtain extra where ex: "snd r2 = snd r1 @ extra" by blast
  from fin have p': "population' = sort_key fitness (py_prefix (snd r2) (population_size s))"
    and pne: "population' \<noteq> []"
    by (auto simp: Let_def split: if_splits)
  from p' pne have "py_prefix (snd r2) (population_size s) \<noteq> []" by auto
  from py_prefix_head[OF this] have "hd (snd r2) \<in> set (py_prefix (snd r2) (population_size s))"
    by simp
  moreover from ex l1 have "hd (snd r2) = hd (snd r1)" by simp
  ultimately have "hd (snd r1) \<in> set population'" by (simp add: p')
  then have "best_fitness population' \<le> fitness (hd (snd r1))" by (rule best_fitness_le)
  with f1 best_fitness_sorted[OF ne srt]
  have "best_fitness population' \<le> best_fitness population" by simp
  moreover have "sorted (map fitness population')" by (simp add: p')
  ultimately show ?thesis using pne by simp
qed

lemma ga_generations_append:
  "ga_generations g (xs @ ys) sp =
     (case ga_generations g xs sp of Inl e \<Rightarrow> Inl e | Inr sp' \<Rightarrow> ga_generations g ys sp')"
  by (induction xs arbitrary: sp) (auto split: sum.splits)

lemma ga_generations_inv:
  assumes "ga_generations g gens (s, population) = Inr (s', population')"
    and "population \<noteq> []" and "sorted (map fitness population)"
  shows "population' \<noteq> [] \<and> sorted (map fitness population') \<and>
         best_fitness population' \<le> best_fitness population"
  using assms
proof (induction gens arbitrary: s population)
  case Nil
  then show ?case by simp
next
  case (Cons generation gens)
  from Cons.prems(1) obtain s1 p1 where
    1: "generation_step g generation (s, population) = Inr (s1, p1)"
    and 2: "ga_generations g gens (s1, p1) = Inr (s', population')"
    by (cases "generation_step g generation (s, population)") auto
  from generation_step_best[OF 1 Cons.prems(2,3)]
  have a: "p1 \<noteq> []" "sorted (map fitness p1)" "best_fitness p1 \<le> best_fitness population"
    by simp_all
  from Cons.IH[OF 2 a(1,2)] a(3) show ?case by auto
qed

lemma population_after_inv:
  assumes "population_after g s seeded t = Inr (s', population)"
  shows "population \<noteq> [] \<and> sorted (map fitness population)"
proof -
  from assms have ne: "sort_key fitness seeded \<noteq> []"
    and l: "ga_generations g [0..<t] (s, sort_key fitness seeded) = Inr (s', population)"
    by (auto simp: population_after_def Let_def split: if_splits)
  from ga_generations_inv[OF l ne] show ?thesis by simp
qed

lemma population_after_Suc:
  assumes "population_after g s seeded (Suc t) = Inr (s2, p2)"
  shows "\<exists>s1 p1. population_after g s seeded t = Inr (s1, p1) \<and>
           generation_step g t (s1, p1) = Inr (s2, p2)"
proof -
  from assms have ne: "sort_key fitness seeded \<noteq> []"
    and l: "ga_generations g ([0..<t] @ [t]) (s, sort_key fitness seeded) = Inr (s2, p2)"
    by (auto simp: population_after_def Let_def split: if_splits)
  from l obtain sp where 1: "ga_generations g [0..<t] (s, sort_key fitness seeded) = Inr sp"
    and 2: "ga_generations g [t] sp = Inr (s2, p2)"
    unfolding ga_generations_append by (auto split: sum.splits)
  from 2 have "generation_step g t sp = Inr (s2, p2)" by (auto split: sum.splits)
  with 1 ne show ?thesis
    by (cases sp) (simp add: population_after_def Let_def)
qed

text \<open>C5.  From one generation to the next the best fitness in the population does
  not increase: when the population after \<open>t + 1\<close> generations exists, so does the one
  after \<open>t\<close> generations, and its best fitness is at least that of its successor.  The
  individual that the search returns is a member of the population after the last
  generation and has the least fitness in it.\<close>

theorem best_fitness_never_increases:
  "(\<forall>t s2 p2. population_after g s seeded (Suc t) = Inr (s2, p2) \<longrightarrow>
      (\<exists>s1 p1. population_after g s seeded t = Inr (s1, p1) \<and>
                generation_step g t (s1, p1) = Inr (s2, p2) \<and>
                best_fitness p2 \<le> best_fitness p1)) \<and>
   (\<forall>s' best. ga_search g s seeded = Inr (s', best) \<longrightarrow>
      (\<exists>p. population_after g s seeded (nat (generations s)) = Inr (s', p) \<and>
           best \<in> set p \<and> fitness best = best_fitness p \<and>
           (\<forall>x \<in> set p. fitness best \<le> fitness x)))"
proof (intro conjI allI impI)
  fix t s2 p2
  assume a: "population_after g s seeded (Suc t) = Inr (s2, p2)"
  from population_after_Suc[OF a] obtain s1 p1 where
    1: "population_after g s seeded t = Inr (s1, p1)"
    and 2: "generation_step g t (s1, p1) = Inr (s2, p2)" by blast
  from population_after_inv[OF 1] generation_step_best[OF 2]
  have "best_fitness p2 \<le> best_fitness p1" by simp
  with 1 2 show "\<exists>s1 p1. population_after g s seeded t = Inr (s1, p1) \<and>
                generation_step g t (s1, p1) = Inr (s2, p2) \<and>
                best_fitness p2 \<le> best_fitness p1" by blast
next
  fix s' best
  assume a: "ga_search g s seeded = Inr (s', best)"
  then obtain sp where sp: "population_after g s seeded (nat (generations s)) = Inr sp"
    and b: "(case snd sp of [] \<Rightarrow> Inl IndexError | best # rest \<Rightarrow> Inr (fst sp, best)) = Inr (s', best)"
    unfolding ga_search_def bind_err_eq_Inr by blast
  from b obtain rest where p: "snd sp = best # rest" and s: "fst sp = s'"
    by (cases "snd sp") auto
  from sp p s have pa: "population_after g s seeded (nat (generations s)) = Inr (s', best # rest)"
    by (cases sp) simp
  from population_after_inv[OF pa] have srt: "sorted (map fitness (best # rest))" by simp
  have bf: "fitness best = best_fitness (best # rest)"
    using best_fitness_sorted[of "best # rest"] srt by simp
  have "\<forall>x \<in> set (best # rest). fitness best \<le> fitness x"
    using srt by auto
  with pa bf show "\<exists>p. population_after g s seeded (nat (generations s)) = Inr (s', p) \<and>
           best \<in> set p \<and> fitness best = best_fitness p \<and>
           (\<forall>x \<in> set p. fitness best \<le> fitness x)"
    by (intro exI[of _ "best # rest"]) simp
qed

theorem best_fitness_never_increases_witness:
  "(\<exists>s1 p1 s2 p2.
      population_after example_ga_draws (fst small_seeded) (snd small_seeded) 0 = Inr (s1, p1) \<and>
      population_after example_ga_draws (fst small_seeded) (snd small_seeded) (Suc 0) = Inr (s2, p2) \<and>
      best_fitness p1 = Fin 108 \<and> best_fitness p2 = Fin 65 \<and> best_fitness p2 \<le> best_fitness p1) \<and>
   (\<exists>s' best p.
      ga_search example_ga_draws (fst small_seeded) (snd small_seeded) = Inr (s', best) \<and>
      population_after example_ga_draws (fst small_seeded) (snd small_seeded) 1 = Inr (s', p) \<and>
      fitness best = Fin 65 \<and> fitness best = best_fitness p)"
proof -
  let ?pa = "population_after example_ga_draws (fst small_seeded) (snd small_seeded)"
  let ?ga = "ga_search example_ga_draws (fst small_seeded) (snd small_seeded)"
  note t = best_fitness_never_increases[of example_ga_draws "fst small_seeded" "snd small_seeded"]
  have "\<not> raises (?pa (Suc 0))" by code_simp
  then obtain s2 p2 where 2: "?pa (Suc 0) = Inr (s2, p2)" unfolding not_raises_iff by force
  with t obtain s1 p1 where 1: "?pa 0 = Inr (s1, p1)" and le: "best_fitness p2 \<le> best_fitness p1"
    by blast
  have "best_fitness (snd (projr (?pa 0))) = Fin 108" by code_simp
  with 1 have b1: "best_fitness p1 = Fin 108" by simp
  have "best_fitness (snd (projr (?pa (Suc 0)))) = Fin 65" by code_simp
  with 2 have b2: "best_fitness p2 = Fin 65" by simp
  have g: "nat (generations (fst small_seeded)) = 1" by code_simp
  have "\<not> raises ?ga" by code_simp
  then obtain s' best where 3: "?ga = Inr (s', best)" unfolding not_raises_iff by force
  with t g obtain p where 4: "?pa 1 = Inr (s', p)" and 5: "fitness best = best_fitness p"
    by auto
  from 2 4 b2 5 have 6: "fitness best = Fin 65" by simp
  from 1 2 b1 b2 le 3 4 5 6 show ?thesis by blast
qed

end
